theory Spec2Isabelle
  imports Main
begin

section \<open>Text primitives of the host language\<close>

text \<open>
  A buffer is a \<^typ>\<open>string\<close>; characters are the code units of the Latin-1 range.
  Line breaks are the single character LF: the parser itself splits the text on that
  character only, and the editor's \<open>lineAt\<close> is read through the same split.
\<close>

abbreviation nl :: char where
  "nl \<equiv> CHR 0x0A"

abbreviation dquote :: char where
  "dquote \<equiv> CHR 0x22"

abbreviation squote :: char where
  "squote \<equiv> CHR 0x27"

text \<open>The class \<open>\s\<close> of regular expressions, which is also what \<open>trim\<close> strips:
  TAB, LF, VT, FF, CR, SPACE and NBSP.\<close>

definition is_space :: "char \<Rightarrow> bool" where
  "is_space c \<longleftrightarrow> c \<in> set [CHR 0x09, CHR 0x0A, CHR 0x0B, CHR 0x0C, CHR 0x0D, CHR 0x20, CHR 0xA0]"

definition trim :: "string \<Rightarrow> string" where
  "trim s = rev (dropWhile is_space (rev (dropWhile is_space s)))"

definition startsWith :: "string \<Rightarrow> string \<Rightarrow> bool" where
  "startsWith s p \<longleftrightarrow> take (length p) s = p"

definition endsWith :: "string \<Rightarrow> string \<Rightarrow> bool" where
  "endsWith s p \<longleftrightarrow> length p \<le> length s \<and> drop (length s - length p) s = p"

text \<open>\<open>text.split('\n')\<close>: never empty, the last piece is what follows the last LF.\<close>

fun split_nl :: "string \<Rightarrow> string list" where
  "split_nl [] = [[]]"
| "split_nl (c # cs) =
     (if c = nl then [] # split_nl cs
      else (case split_nl cs of [] \<Rightarrow> [[c]] | l # ls \<Rightarrow> (c # l) # ls))"

text \<open>\<open>docLines.join('\n')\<close>.\<close>

fun join_nl :: "string list \<Rightarrow> string" where
  "join_nl [] = []"
| "join_nl [l] = l"
| "join_nl (l # ls) = l @ nl # join_nl ls"

text \<open>\<open>s.search(/\S/)\<close>: the index of the first character outside \<open>\s\<close>, or \<open>-1\<close>.\<close>

fun search_from :: "string \<Rightarrow> int \<Rightarrow> int" where
  "search_from [] i = - 1"
| "search_from (c # cs) i = (if is_space c then search_from cs (i + 1) else i)"

definition search_nonspace :: "string \<Rightarrow> int" where
  "search_nonspace s = search_from s 0"

section \<open>Regular expressions with backtracking\<close>

text \<open>
  The signature patterns are regular expression literals. They are kept as syntax trees
  and run by a backtracking matcher that tries alternatives in the order of the host
  language's engine: the left branch of an alternation first, one more iteration of a
  greedy quantifier before fewer, fewer iterations of a lazy quantifier before more.
  An iteration of a quantifier that consumes nothing is rejected.
\<close>

datatype regex =
    Eps
  | Chr char
  | Cls "char \<Rightarrow> bool"
  | Seq regex regex
  | Alt regex regex
  | Opt regex
  | Star regex
  | LazyStar regex
  | Grp nat regex

type_synonym captures = "nat \<rightharpoonup> string"

type_synonym cont = "string \<Rightarrow> captures \<Rightarrow> captures option"

text \<open>The fuel of the two loops is the input itself: an iteration consumes at least one
  character, so the fuel cannot run out before the input does.\<close>

primrec star_loop :: "(string \<Rightarrow> captures \<Rightarrow> cont \<Rightarrow> captures option) \<Rightarrow> string \<Rightarrow>
    string \<Rightarrow> captures \<Rightarrow> cont \<Rightarrow> captures option" where
  "star_loop f [] s c k = k s c"
| "star_loop f (x # fuel) s c k =
     (case f s c (\<lambda>s' c'. if length s' < length s then star_loop f fuel s' c' k else None) of
        Some r \<Rightarrow> Some r
      | None \<Rightarrow> k s c)"

primrec lazy_loop :: "(string \<Rightarrow> captures \<Rightarrow> cont \<Rightarrow> captures option) \<Rightarrow> string \<Rightarrow>
    string \<Rightarrow> captures \<Rightarrow> cont \<Rightarrow> captures option" where
  "lazy_loop f [] s c k = k s c"
| "lazy_loop f (x # fuel) s c k =
     (case k s c of
        Some r \<Rightarrow> Some r
      | None \<Rightarrow> f s c (\<lambda>s' c'. if length s' < length s then lazy_loop f fuel s' c' k else None))"

primrec rmatch :: "regex \<Rightarrow> string \<Rightarrow> captures \<Rightarrow> cont \<Rightarrow> captures option" where
  "rmatch Eps = (\<lambda>s c k. k s c)"
| "rmatch (Chr a) = (\<lambda>s c k. case s of [] \<Rightarrow> None | x # xs \<Rightarrow> if x = a then k xs c else None)"
| "rmatch (Cls p) = (\<lambda>s c k. case s of [] \<Rightarrow> None | x # xs \<Rightarrow> if p x then k xs c else None)"
| "rmatch (Seq r1 r2) = (\<lambda>s c k. rmatch r1 s c (\<lambda>s' c'. rmatch r2 s' c' k))"
| "rmatch (Alt r1 r2) = (\<lambda>s c k. case rmatch r1 s c k of Some r \<Rightarrow> Some r | None \<Rightarrow> rmatch r2 s c k)"
| "rmatch (Opt r1) = (\<lambda>s c k. case rmatch r1 s c k of Some r \<Rightarrow> Some r | None \<Rightarrow> k s c)"
| "rmatch (Star r1) = (\<lambda>s c k. star_loop (rmatch r1) s s c k)"
| "rmatch (LazyStar r1) = (\<lambda>s c k. lazy_loop (rmatch r1) s s c k)"
| "rmatch (Grp n r1) =
     (\<lambda>s c k. rmatch r1 s c (\<lambda>s' c'. k s' (c'(n \<mapsto> take (length s - length s') s))))"

definition match_here :: "regex \<Rightarrow> string \<Rightarrow> captures option" where
  "match_here r s = rmatch r s Map.empty (\<lambda>s' c. Some c)"

text \<open>\<open>exec\<close> on a pattern without \<open>^\<close>: the leftmost start position that matches.\<close>

fun match_anywhere :: "regex \<Rightarrow> string \<Rightarrow> captures option" where
  "match_anywhere r [] = match_here r []"
| "match_anywhere r (x # xs) =
     (case match_here r (x # xs) of Some c \<Rightarrow> Some c | None \<Rightarrow> match_anywhere r xs)"

text \<open>A pattern is a tree and whether it starts with \<open>^\<close> (no pattern here has the
  multiline flag, so \<open>^\<close> is the start of the line text only).\<close>

datatype pattern = Anchored regex | Unanchored regex

fun exec :: "pattern \<Rightarrow> string \<Rightarrow> captures option" where
  "exec (Anchored r) s = match_here r s"
| "exec (Unanchored r) s = match_anywhere r s"

definition seq :: "regex list \<Rightarrow> regex" where
  "seq rs = foldr Seq rs Eps"

definition lit :: "string \<Rightarrow> regex" where
  "lit s = seq (map Chr s)"

definition Plus :: "regex \<Rightarrow> regex" where
  "Plus r = Seq r (Star r)"

text \<open>Character classes of the patterns.\<close>

definition is_alnum :: "char \<Rightarrow> bool" where
  "is_alnum c \<longleftrightarrow>
     (let n = (of_char c :: nat)
      in (65 \<le> n \<and> n \<le> 90) \<or> (97 \<le> n \<and> n \<le> 122) \<or> (48 \<le> n \<and> n \<le> 57))"

definition ident_js :: "char \<Rightarrow> bool" where
  "ident_js c \<longleftrightarrow> is_alnum c \<or> c = CHR ''_'' \<or> c = CHR ''$''"

definition ident_c :: "char \<Rightarrow> bool" where
  "ident_c c \<longleftrightarrow> is_alnum c \<or> c = CHR ''_''"

definition type_c :: "char \<Rightarrow> bool" where
  "type_c c \<longleftrightarrow> is_alnum c \<or> c \<in> set ''_<>[]''"

definition throws_c :: "char \<Rightarrow> bool" where
  "throws_c c \<longleftrightarrow> is_alnum c \<or> c = CHR ''_'' \<or> c = CHR '','' \<or> is_space c"

definition not_rparen :: "char \<Rightarrow> bool" where
  "not_rparen c \<longleftrightarrow> c \<noteq> CHR '')''"

definition not_lbrace :: "char \<Rightarrow> bool" where
  "not_lbrace c \<longleftrightarrow> c \<noteq> CHR ''{''"

definition any_char :: "char \<Rightarrow> bool" where
  "any_char c \<longleftrightarrow> c \<noteq> CHR 0x0A \<and> c \<noteq> CHR 0x0D"

abbreviation ws :: regex where
  "ws \<equiv> Star (Cls is_space)"

abbreviation ws1 :: regex where
  "ws1 \<equiv> Plus (Cls is_space)"

section \<open>Signature patterns\<close>

text \<open>\<^verbatim>\<open>/function\s+([A-Za-z0-9_$]+)\s*\(([^)]*)\)\s*{/\<close>\<close>

definition js_function_decl :: pattern where
  "js_function_decl = Unanchored (seq
     [lit ''function'', ws1, Grp 1 (Plus (Cls ident_js)), ws,
      Chr CHR ''('', Grp 2 (Star (Cls not_rparen)), Chr CHR '')'', ws, Chr CHR ''{''])"

text \<open>\<^verbatim>\<open>/(?:const|let|var)\s+([A-Za-z0-9_$]+)\s*=\s*(?:async\s*)?\(([^)]*)\)\s*=>\s*{/\<close>\<close>

definition js_arrow :: pattern where
  "js_arrow = Unanchored (seq
     [Alt (lit ''const'') (Alt (lit ''let'') (lit ''var'')), ws1,
      Grp 1 (Plus (Cls ident_js)), ws, Chr CHR ''='', ws,
      Opt (seq [lit ''async'', ws]),
      Chr CHR ''('', Grp 2 (Star (Cls not_rparen)), Chr CHR '')'', ws,
      lit ''=>'', ws, Chr CHR ''{''])"

text \<open>\<^verbatim>\<open>/([A-Za-z0-9_$]+)\s*\(([^)]*)\)\s*{/\<close>\<close>

definition js_method :: pattern where
  "js_method = Unanchored (seq
     [Grp 1 (Plus (Cls ident_js)), ws,
      Chr CHR ''('', Grp 2 (Star (Cls not_rparen)), Chr CHR '')'', ws, Chr CHR ''{''])"

text \<open>\<^verbatim>\<open>/(?:public|private|protected)?\s*(?:static)?\s*(?:async)?\s*([A-Za-z0-9_$]+)\s*\(([^)]*)\)\s*(?::\s*[^{]+)?\s*{/\<close>\<close>

definition js_class_method :: pattern where
  "js_class_method = Unanchored (seq
     [Opt (Alt (lit ''public'') (Alt (lit ''private'') (lit ''protected''))), ws,
      Opt (lit ''static''), ws, Opt (lit ''async''), ws,
      Grp 1 (Plus (Cls ident_js)), ws,
      Chr CHR ''('', Grp 2 (Star (Cls not_rparen)), Chr CHR '')'', ws,
      Opt (seq [Chr CHR '':'', ws, Plus (Cls not_lbrace)]), ws, Chr CHR ''{''])"

definition functionPatterns :: "pattern list" where
  "functionPatterns = [js_function_decl, js_arrow, js_method, js_class_method]"

text \<open>\<^verbatim>\<open>/^\s*def\s+([A-Za-z0-9_]+)\s*\(([^)]*)\)\s*(?:->.*?)?:/\<close>\<close>

definition py_pattern :: pattern where
  "py_pattern = Anchored (seq
     [ws, lit ''def'', ws1, Grp 1 (Plus (Cls ident_c)), ws,
      Chr CHR ''('', Grp 2 (Star (Cls not_rparen)), Chr CHR '')'', ws,
      Opt (seq [lit ''->'', LazyStar (Cls any_char)]), Chr CHR '':''])"

text \<open>\<^verbatim>\<open>/^\s*(public|private|protected)?\s*(static)?\s*([A-Za-z0-9_<>[\]]+)\s+([A-Za-z0-9_]+)\s*\(([^)]*)\)\s*(?:throws\s+[A-Za-z0-9_,\s]+)?\s*{/\<close>\<close>

definition c_pattern :: pattern where
  "c_pattern = Anchored (seq
     [ws, Opt (Grp 1 (Alt (lit ''public'') (Alt (lit ''private'') (lit ''protected'')))), ws,
      Opt (Grp 2 (lit ''static'')), ws,
      Grp 3 (Plus (Cls type_c)), ws1, Grp 4 (Plus (Cls ident_c)), ws,
      Chr CHR ''('', Grp 5 (Star (Cls not_rparen)), Chr CHR '')'', ws,
      Opt (seq [lit ''throws'', ws1, Plus (Cls throws_c)]), ws, Chr CHR ''{''])"

text \<open>\<^verbatim>\<open>/([A-Za-z0-9_]+)\s*\(([^)]*)\)/\<close>\<close>

definition generic_pattern :: pattern where
  "generic_pattern = Unanchored (seq
     [Grp 1 (Plus (Cls ident_c)), ws,
      Chr CHR ''('', Grp 2 (Star (Cls not_rparen)), Chr CHR '')''])"

text \<open>\<open>match[n]\<close>. In every pattern above the group read by the parser lies on every
  path through the pattern, so a match always sets it.\<close>

definition group :: "captures \<Rightarrow> nat \<Rightarrow> string" where
  "group c n = (case c n of Some g \<Rightarrow> g | None \<Rightarrow> ''undefined'')"

text \<open>The inner loop over \<open>functionPatterns\<close>: the first pattern that matches the line.\<close>

fun first_match :: "pattern list \<Rightarrow> string \<Rightarrow> captures option" where
  "first_match [] l = None"
| "first_match (p # ps) l = (case exec p l of Some c \<Rightarrow> Some c | None \<Rightarrow> first_match ps l)"

definition js_signature :: "string \<Rightarrow> string option" where
  "js_signature l = map_option (\<lambda>c. group c 1) (first_match functionPatterns l)"

definition py_signature :: "string \<Rightarrow> string option" where
  "py_signature l = map_option (\<lambda>c. group c 1) (exec py_pattern l)"

definition c_signature :: "string \<Rightarrow> string option" where
  "c_signature l = map_option (\<lambda>c. group c 4) (exec c_pattern l)"

definition generic_signature :: "string \<Rightarrow> string option" where
  "generic_signature l = map_option (\<lambda>c. group c 1) (exec generic_pattern l)"

section \<open>The parser\<close>

record FunctionInfo =
  name :: string
  signature :: string
  body :: string
  startLine :: nat
  endLine :: nat
  language :: string
  existingDocumentation :: "string option"

record document =
  getText :: string
  languageId :: string

text \<open>The only fault the parser can raise: \<open>lineAt\<close> on a line the document does not have.\<close>

datatype error = IllegalLine

subsection \<open>findFunctionBody\<close>

definition count_open :: "string \<Rightarrow> int" where
  "count_open l = int (length (filter (\<lambda>c. c = CHR ''{'') l))"

text \<open>The loop that looks for the first line with an opening brace. Arguments: the lines
  from index \<open>i\<close> on, \<open>i\<close>, \<open>body\<close>, \<open>endLine\<close>; result: \<open>body\<close>, \<open>endLine\<close>, \<open>braceCount\<close>.\<close>

fun open_loop :: "string list \<Rightarrow> nat \<Rightarrow> string \<Rightarrow> nat \<Rightarrow> string \<times> nat \<times> int" where
  "open_loop [] i b e = (b, e, 0)"
| "open_loop (l # ls) i b e =
     (if CHR ''{'' \<in> set l then (b @ l @ [nl], i, count_open l)
      else open_loop ls (i + 1) (b @ l @ [nl]) i)"

text \<open>The loop over the characters of one line, with its \<open>break\<close> at depth zero.\<close>

fun scan_chars :: "string \<Rightarrow> int \<Rightarrow> int" where
  "scan_chars [] n = n"
| "scan_chars (c # cs) n =
     (if c = CHR ''{'' then scan_chars cs (n + 1)
      else if c = CHR ''}'' then (if n - 1 = 0 then 0 else scan_chars cs (n - 1))
      else scan_chars cs n)"

text \<open>The loop \<open>for (i = endLine + 1; i < lines.length && braceCount > 0; i++)\<close>.\<close>

fun close_loop :: "string list \<Rightarrow> nat \<Rightarrow> string \<Rightarrow> nat \<Rightarrow> int \<Rightarrow> string \<times> nat" where
  "close_loop [] i b e n = (b, e)"
| "close_loop (l # ls) i b e n =
     (if n > 0 then close_loop ls (i + 1) (b @ l @ [nl]) i (scan_chars l n) else (b, e))"

text \<open>Called with \<open>startLine < length lines\<close> only: the matchers pass a line at or above
  the cursor line. The result is \<open>(body, startLine, endLine)\<close>.\<close>

definition findFunctionBody :: "string list \<Rightarrow> nat \<Rightarrow> string \<times> nat \<times> nat" where
  "findFunctionBody lines start =
     (let lineText = lines ! start;
          body0 = lineText @ [nl];
          braceCount0 = count_open lineText;
          (body1, endLine1, braceCount1) =
             (if braceCount0 = 0
              then open_loop (drop (start + 1) lines) (start + 1) body0 start
              else (body0, start, braceCount0));
          (body2, endLine2) =
             close_loop (drop (endLine1 + 1) lines) (endLine1 + 1) body1 endLine1 braceCount1
      in (body2, start, endLine2))"

subsection \<open>findExistingDocumentation\<close>

function skip_blank_up :: "string list \<Rightarrow> int \<Rightarrow> int" where
  "skip_blank_up lines i =
     (if i \<ge> 0 \<and> trim (lines ! nat i) = [] then skip_blank_up lines (i - 1) else i)"
  by pat_completeness auto
termination
  by (relation "measure (\<lambda>(lines, i). nat (i + 1))") auto

function doc_up :: "string list \<Rightarrow> int \<Rightarrow> string list \<Rightarrow> string option" where
  "doc_up lines i docLines =
     (if i \<ge> 0
      then (let docLines' = lines ! nat i # docLines
            in if startsWith (trim (lines ! nat i)) ''/**'' then Some (join_nl docLines')
               else doc_up lines (i - 1) docLines')
      else None)"
  by pat_completeness auto
termination
  by (relation "measure (\<lambda>(lines, i, d). nat (i + 1))") auto

definition findExistingDocumentation :: "string list \<Rightarrow> nat \<Rightarrow> string option" where
  "findExistingDocumentation lines functionStartLine =
     (let i = skip_blank_up lines (int functionStartLine - 1)
      in if i < 0 then None
         else if endsWith (trim (lines ! nat i)) ''*/'' then doc_up lines i []
         else None)"

subsection \<open>findPythonDocstring\<close>

definition triple_dq :: string where
  "triple_dq = [dquote, dquote, dquote]"

definition triple_sq :: string where
  "triple_sq = [squote, squote, squote]"

text \<open>The loop \<open>while (i < lines.length)\<close>; the first argument holds the lines from
  index \<open>i\<close> on.\<close>

fun docstring_loop :: "string list \<Rightarrow> string \<Rightarrow> string list \<Rightarrow> string list" where
  "docstring_loop [] q docLines = docLines"
| "docstring_loop (l # ls) q docLines =
     (if endsWith (trim l) q then docLines @ [l] else docstring_loop ls q (docLines @ [l]))"

definition findPythonDocstring :: "string list \<Rightarrow> nat \<Rightarrow> string option" where
  "findPythonDocstring lines functionLine =
     (if functionLine + 1 < length lines
      then (let nextLine = trim (lines ! (functionLine + 1))
            in if startsWith nextLine triple_dq \<or> startsWith nextLine triple_sq
               then (let docLines = [lines ! (functionLine + 1)]
                     in if \<not> (endsWith nextLine triple_dq \<and> length nextLine > 3) \<and>
                           \<not> (endsWith nextLine triple_sq \<and> length nextLine > 3)
                        then (let quoteType =
                                    (if startsWith nextLine triple_dq then triple_dq else triple_sq)
                              in Some (join_nl
                                   (docstring_loop (drop (functionLine + 2) lines) quoteType docLines)))
                        else Some (join_nl docLines))
               else None)
      else None)"

subsection \<open>The four matchers\<close>

text \<open>The loop \<open>for (i = currentLine; i >= Math.max(0, currentLine - k); i--)\<close>, shared by
  the four matchers: \<open>lo\<close> is the bound \<open>Math.max(0, currentLine - k)\<close>, the result is
  the matched line and the name.\<close>

function scan_up :: "(string \<Rightarrow> string option) \<Rightarrow> string list \<Rightarrow> nat \<Rightarrow> nat \<Rightarrow> (nat \<times> string) option" where
  "scan_up m lines lo i =
     (case m (lines ! i) of
        Some nm \<Rightarrow> Some (i, nm)
      | None \<Rightarrow> if lo < i then scan_up m lines lo (i - 1) else None)"
  by pat_completeness auto
termination
  by (relation "measure (\<lambda>(m, lines, lo, i). i)") auto

declare scan_up.simps [simp del]
declare skip_blank_up.simps [simp del]
declare doc_up.simps [simp del]

definition findJavaScriptFunction :: "document \<Rightarrow> nat \<Rightarrow> FunctionInfo option" where
  "findJavaScriptFunction doc currentLine =
     (let lines = split_nl (getText doc)
      in case scan_up js_signature lines (currentLine - 10) currentLine of
           None \<Rightarrow> None
         | Some (i, functionName) \<Rightarrow>
             (let (b, s, e) = findFunctionBody lines i
              in Some \<lparr>name = functionName, signature = trim (lines ! i), body = b,
                       startLine = s, endLine = e, language = languageId doc,
                       existingDocumentation = findExistingDocumentation lines s\<rparr>))"

text \<open>The body loop of the Python matcher. Arguments: the lines from index \<open>j\<close> on,
  \<open>j\<close>, \<open>defIndent\<close>, \<open>body\<close>, \<open>endLine\<close>.\<close>

fun py_body_loop :: "string list \<Rightarrow> nat \<Rightarrow> int \<Rightarrow> string \<Rightarrow> nat \<Rightarrow> string \<times> nat" where
  "py_body_loop [] j d b e = (b, e)"
| "py_body_loop (l # ls) j d b e =
     (if trim l = [] then py_body_loop ls (j + 1) d (b @ l @ [nl]) j
      else (let lineIndent = search_nonspace l
            in if lineIndent \<le> d \<and> lineIndent \<noteq> - 1 then (b, e)
               else py_body_loop ls (j + 1) d (b @ l @ [nl]) j))"

definition findPythonFunction :: "document \<Rightarrow> nat \<Rightarrow> FunctionInfo option" where
  "findPythonFunction doc currentLine =
     (let lines = split_nl (getText doc)
      in case scan_up py_signature lines (currentLine - 10) currentLine of
           None \<Rightarrow> None
         | Some (i, functionName) \<Rightarrow>
             (let defIndent = search_nonspace (lines ! i);
                  (b, e) = py_body_loop (drop (i + 1) lines) (i + 1) defIndent [] i
              in Some \<lparr>name = functionName, signature = trim (lines ! i), body = b,
                       startLine = i, endLine = e, language = ''python'',
                       existingDocumentation = findPythonDocstring lines i\<rparr>))"

definition findCStyleFunction :: "document \<Rightarrow> nat \<Rightarrow> FunctionInfo option" where
  "findCStyleFunction doc currentLine =
     (let lines = split_nl (getText doc)
      in case scan_up c_signature lines (currentLine - 10) currentLine of
           None \<Rightarrow> None
         | Some (i, functionName) \<Rightarrow>
             (let (b, s, e) = findFunctionBody lines i
              in Some \<lparr>name = functionName, signature = trim (lines ! i), body = b,
                       startLine = i, endLine = e, language = languageId doc,
                       existingDocumentation = findExistingDocumentation lines s\<rparr>))"

definition findGenericFunction :: "document \<Rightarrow> nat \<Rightarrow> FunctionInfo option" where
  "findGenericFunction doc currentLine =
     (let lines = split_nl (getText doc)
      in case scan_up generic_signature lines (currentLine - 5) currentLine of
           None \<Rightarrow> None
         | Some (i, functionName) \<Rightarrow>
             (let (b, s, e) = findFunctionBody lines i
              in Some \<lparr>name = functionName, signature = trim (lines ! i), body = b,
                       startLine = s, endLine = e, language = languageId doc,
                       existingDocumentation = findExistingDocumentation lines s\<rparr>))"

subsection \<open>findFunctionAtPosition\<close>

text \<open>\<open>document.lineAt(line)\<close> comes first and raises on a line outside the document;
  after it every index the matchers read is at most the cursor line.\<close>

definition findFunctionAtPosition :: "document \<Rightarrow> nat \<Rightarrow> error + FunctionInfo option" where
  "findFunctionAtPosition doc line =
     (let lang = languageId doc
      in if length (split_nl (getText doc)) \<le> line then Inl IllegalLine
         else if lang \<in> set [''javascript'', ''typescript'', ''typescriptreact'', ''javascriptreact'']
              then Inr (findJavaScriptFunction doc line)
         else if lang = ''python'' then Inr (findPythonFunction doc line)
         else if lang \<in> set [''java'', ''csharp'', ''cpp'', ''c'']
              then Inr (findCStyleFunction doc line)
         else Inr (findGenericFunction doc line))"

section \<open>Vocabulary of the specification\<close>

text \<open>The lines of a span, each terminated by LF, and the text of the lines \<open>s\<close> to \<open>e\<close>
  of a buffer.\<close>

definition nlines :: "string list \<Rightarrow> string" where
  "nlines ls = concat (map (\<lambda>l. l @ [nl]) ls)"

definition slice :: "string list \<Rightarrow> nat \<Rightarrow> nat \<Rightarrow> string" where
  "slice lines s e = nlines (take (e + 1 - s) (drop s lines))"

text \<open>The running brace depth: the depth after each character of a text, starting from
  depth \<open>d\<close>, and the depth after all of it.\<close>

fun depths :: "int \<Rightarrow> string \<Rightarrow> int list" where
  "depths d [] = []"
| "depths d (c # cs) =
     (let d' = (if c = CHR ''{'' then d + 1 else if c = CHR ''}'' then d - 1 else d)
      in d' # depths d' cs)"

fun depth_after :: "int \<Rightarrow> string \<Rightarrow> int" where
  "depth_after d [] = d"
| "depth_after d (c # cs) =
     depth_after (if c = CHR ''{'' then d + 1 else if c = CHR ''}'' then d - 1 else d) cs"

text \<open>The opening line of a header at line \<open>s\<close>: the first line at or after \<open>s\<close> with an
  opening brace. The depth counter starts from the number of opening braces of that line
  and runs over the characters of the lines after it.\<close>

definition opening_line :: "string list \<Rightarrow> nat \<Rightarrow> nat option" where
  "opening_line lines s =
     (let p = length (takeWhile (\<lambda>l. CHR ''{'' \<notin> set l) (drop s lines))
      in if s + p < length lines then Some (s + p) else None)"

text \<open>The counter first returns to zero on line \<open>e\<close>.\<close>

definition closes_on :: "string list \<Rightarrow> nat \<Rightarrow> nat \<Rightarrow> bool" where
  "closes_on lines s e =
     (case opening_line lines s of
        None \<Rightarrow> False
      | Some k \<Rightarrow>
          k < e \<and> e < length lines \<and>
          0 \<notin> set (depths (count_open (lines ! k)) (concat (take (e - k - 1) (drop (k + 1) lines)))) \<and>
          0 \<in> set (depths (count_open (lines ! k)) (concat (take (e - k) (drop (k + 1) lines)))))"

text \<open>The counter does not return to zero before the end of the buffer.\<close>

definition never_closes :: "string list \<Rightarrow> nat \<Rightarrow> bool" where
  "never_closes lines s =
     (case opening_line lines s of
        None \<Rightarrow> True
      | Some k \<Rightarrow> 0 \<notin> set (depths (count_open (lines ! k)) (concat (drop (k + 1) lines))))"

text \<open>The lexical span of a block, whatever the collector does: the text from the first
  opening brace of a line on, and the line \<open>e\<close> that holds the closing brace matching
  that first opening brace of line \<open>k\<close>. Every brace counts, \<open>{\<close> as one up and \<open>}\<close>
  as one down, from depth zero before the first opening brace; the matching brace is the
  first character at which the depth is zero again.\<close>

definition from_brace :: "string \<Rightarrow> string" where
  "from_brace l = dropWhile (\<lambda>c. c \<noteq> CHR ''{'') l"

definition matching_brace_on :: "string list \<Rightarrow> nat \<Rightarrow> nat \<Rightarrow> bool" where
  "matching_brace_on lines k e \<longleftrightarrow>
     k < e \<and> e < length lines \<and>
     0 \<notin> set (depths 0 (from_brace (lines ! k) @ concat (take (e - k - 1) (drop (k + 1) lines)))) \<and>
     0 \<in> set (depths 0 (from_brace (lines ! k) @ concat (take (e - k) (drop (k + 1) lines))))"

text \<open>The dispatch table: the signature matcher and the lookback of a language tag.\<close>

definition js_langs :: "string list" where
  "js_langs = [''javascript'', ''typescript'', ''typescriptreact'', ''javascriptreact'']"

definition c_langs :: "string list" where
  "c_langs = [''java'', ''csharp'', ''cpp'', ''c'']"

definition matcher_for :: "string \<Rightarrow> string \<Rightarrow> string option" where
  "matcher_for lang =
     (if lang \<in> set js_langs then js_signature
      else if lang = ''python'' then py_signature
      else if lang \<in> set c_langs then c_signature
      else generic_signature)"

definition lookback :: "string \<Rightarrow> nat" where
  "lookback lang = (if lang \<in> set js_langs \<or> lang = ''python'' \<or> lang \<in> set c_langs then 10 else 5)"

text \<open>Whitespace-only lines, the column of the first character that is not whitespace, and
  the lines that end a Python body whose header has its first such character in column
  \<open>d\<close>.\<close>

definition blank :: "string \<Rightarrow> bool" where
  "blank l \<longleftrightarrow> (\<forall>c \<in> set l. is_space c)"

definition indent :: "string \<Rightarrow> nat" where
  "indent l = length (takeWhile is_space l)"

definition terminator :: "int \<Rightarrow> string \<Rightarrow> bool" where
  "terminator d l \<longleftrightarrow> \<not> blank l \<and> int (indent l) \<le> d"

text \<open>The buffers of the concrete scenarios.\<close>

definition js_add_text :: string where
  "js_add_text = ''function add(a, b) {\<newline>  return a + b;\<newline>}\<newline>''"

definition py_add_text :: string where
  "py_add_text = ''def add(a, b):\<newline>    return a + b\<newline>''"

definition long_js_text :: string where
  "long_js_text = ''function f() {\<newline>a;\<newline>a;\<newline>a;\<newline>a;\<newline>a;\<newline>a;\<newline>a;\<newline>a;\<newline>a;\<newline>a;\<newline>a;\<newline>}''"

definition prose_text :: string where
  "prose_text = ''plain text\<newline>more prose''"

definition default_param_text :: string where
  "default_param_text = ''function f(o = {}) {\<newline>  return o;\<newline>}\<newline>const z = 1;''"

definition py_block_text :: string where
  "py_block_text = ''def f(x):\<newline>    a = 1\<newline>\<newline>    return a\<newline>print(1)\<newline>''"

definition bad_docstring_lines :: "string list" where
  "bad_docstring_lines =
     [''def f():'', ''    '' @ triple_dq @ ''a'' @ triple_sq, ''    b'', ''    '' @ triple_dq]"

text \<open>The docstring rule in the words of the specification: a line that starts with a
  triple-quote delimiter is a docstring of one line when it starts and ends with the same
  delimiter and is longer than the delimiter; otherwise the docstring runs to the first
  later line whose trimmed text ends with the delimiter that opened it, inclusive.\<close>

definition single_line_docstring :: "string \<Rightarrow> bool" where
  "single_line_docstring t \<longleftrightarrow>
     length t > 3 \<and>
     (startsWith t triple_dq \<and> endsWith t triple_dq \<or> startsWith t triple_sq \<and> endsWith t triple_sq)"

definition until_closing :: "string \<Rightarrow> string list \<Rightarrow> string list" where
  "until_closing q ls =
     takeWhile (\<lambda>l. \<not> endsWith (trim l) q) ls @ take 1 (dropWhile (\<lambda>l. \<not> endsWith (trim l) q) ls)"

definition docstring_spec :: "string list \<Rightarrow> nat \<Rightarrow> string option" where
  "docstring_spec lines h =
     (if h + 1 < length lines
      then (let t = trim (lines ! (h + 1))
            in if startsWith t triple_dq \<or> startsWith t triple_sq
               then (if single_line_docstring t then Some (lines ! (h + 1))
                     else Some (join_nl (lines ! (h + 1) #
                       until_closing (if startsWith t triple_dq then triple_dq else triple_sq)
                         (drop (h + 2) lines))))
               else None)
      else None)"

text \<open>A line that opens with one triple-quote delimiter and ends with the other.\<close>

definition mixed_delimiters :: "string \<Rightarrow> bool" where
  "mixed_delimiters t \<longleftrightarrow>
     length t > 3 \<and>
     (startsWith t triple_dq \<and> endsWith t triple_sq \<or> startsWith t triple_sq \<and> endsWith t triple_dq)"

section \<open>The brace body collector\<close>

lemma nlines_append [simp]: "nlines (xs @ ys) = nlines xs @ nlines ys"
  by (simp add: nlines_def)

lemma nlines_Cons [simp]: "nlines (x # xs) = x @ nl # nlines xs"
  by (simp add: nlines_def)

lemma nlines_Nil [simp]: "nlines [] = []"
  by (simp add: nlines_def)

lemma depths_append:
  "depths d (xs @ ys) = depths d xs @ depths (depth_after d xs) ys"
  by (induction xs arbitrary: d) (simp_all add: Let_def)

lemma depths_stay_positive:
  "0 < d \<Longrightarrow> 0 \<notin> set (depths d cs) \<Longrightarrow> 0 < depth_after d cs"
proof (induction cs arbitrary: d)
  case Nil
  then show ?case by simp
next
  case (Cons c cs)
  then show ?case by (auto simp: Let_def split: if_splits)
qed

text \<open>The loop over the characters of a line, with its \<open>break\<close>, agrees with the running
  depth: zero as soon as the depth reaches zero on the line, the depth after the line otherwise.\<close>

lemma scan_chars_depths:
  "0 < n \<Longrightarrow> scan_chars cs n = (if 0 \<in> set (depths n cs) then 0 else depth_after n cs)"
proof (induction cs arbitrary: n)
  case Nil
  then show ?case by simp
next
  case (Cons c cs)
  show ?case
  proof (cases "c = CHR ''{''")
    case True
    with Cons.prems Cons.IH [of "n + 1"] show ?thesis by (simp add: Let_def)
  next
    case False
    note nb = this
    show ?thesis
    proof (cases "c = CHR ''}''")
      case True
      with Cons.prems Cons.IH [of "n - 1"] show ?thesis by (simp add: Let_def)
    next
      case False
      with nb Cons.prems Cons.IH [of n] show ?thesis by (simp add: Let_def)
    qed
  qed
qed

lemma count_open_pos: "0 < count_open l \<longleftrightarrow> CHR ''{'' \<in> set l"
  by (auto simp: count_open_def filter_empty_conv)

lemma count_open_zero: "count_open l = 0 \<longleftrightarrow> CHR ''{'' \<notin> set l"
  by (auto simp: count_open_def filter_empty_conv)

lemma open_loop_none:
  "\<forall>l \<in> set ls. CHR ''{'' \<notin> set l \<Longrightarrow>
     open_loop ls i b e = (b @ nlines ls, if ls = [] then e else i + length ls - 1, 0)"
  by (induction ls arbitrary: i b e) (auto simp: nlines_Cons nlines_Nil)

lemma open_loop_found:
  "\<forall>l \<in> set pre. CHR ''{'' \<notin> set l \<Longrightarrow> CHR ''{'' \<in> set lk \<Longrightarrow>
     open_loop (pre @ lk # post) i b e = (b @ nlines (pre @ [lk]), i + length pre, count_open lk)"
  by (induction pre arbitrary: i b e) (auto simp: nlines_Cons nlines_Nil)

lemma close_loop_zero: "close_loop ls i b e 0 = (b, e)"
  by (cases ls) simp_all

lemma close_loop_never:
  "0 < n \<Longrightarrow> 0 \<notin> set (depths n (concat ls)) \<Longrightarrow>
     close_loop ls i b e n = (b @ nlines ls, if ls = [] then e else i + length ls - 1)"
proof (induction ls arbitrary: i b e n)
  case Nil
  then show ?case by (simp add: nlines_Nil)
next
  case (Cons l ls)
  from Cons.prems have a: "0 \<notin> set (depths n l)"
    and b: "0 \<notin> set (depths (depth_after n l) (concat ls))"
    by (simp_all add: depths_append)
  from Cons.prems(1) a have sc: "scan_chars l n = depth_after n l"
    by (simp add: scan_chars_depths)
  from Cons.prems(1) a have pos: "0 < depth_after n l"
    by (rule depths_stay_positive)
  show ?case
    using Cons.IH [OF pos b, of "i + 1" "b @ l @ [nl]" i] Cons.prems(1) sc
    by (auto simp: nlines_Cons)
qed

lemma close_loop_closes:
  "0 < n \<Longrightarrow> 0 \<notin> set (depths n (concat mid)) \<Longrightarrow> 0 \<in> set (depths n (concat (mid @ [le]))) \<Longrightarrow>
     close_loop (mid @ le # post) i b e n = (b @ nlines (mid @ [le]), i + length mid)"
proof (induction mid arbitrary: i b e n)
  case Nil
  then have "scan_chars le n = 0" by (simp add: scan_chars_depths)
  with Nil show ?case by (simp add: close_loop_zero nlines_Cons nlines_Nil)
next
  case (Cons l mid)
  from Cons.prems have a: "0 \<notin> set (depths n l)"
    and b: "0 \<notin> set (depths (depth_after n l) (concat mid))"
    and c: "0 \<in> set (depths (depth_after n l) (concat (mid @ [le])))"
    by (simp_all add: depths_append)
  from Cons.prems(1) a have sc: "scan_chars l n = depth_after n l"
    by (simp add: scan_chars_depths)
  from Cons.prems(1) a have pos: "0 < depth_after n l"
    by (rule depths_stay_positive)
  show ?case
    using Cons.IH [OF pos b c, of "i + 1" "b @ l @ [nl]" i] Cons.prems(1) sc
    by (auto simp: nlines_Cons)
qed

text \<open>The collector on a buffer cut at the lines that matter: the lines before the header, the
  lines without a brace, the opening line, the lines inside, the closing line and the rest.\<close>

lemma body_closes_list:
  assumes "\<forall>l \<in> set pre. CHR ''{'' \<notin> set l" and "CHR ''{'' \<in> set lk"
    and "0 \<notin> set (depths (count_open lk) (concat mid))"
    and "0 \<in> set (depths (count_open lk) (concat (mid @ [le])))"
  shows "findFunctionBody (A @ pre @ lk # mid @ le # post) (length A) =
    (nlines (pre @ lk # mid @ [le]), length A, length A + length pre + length mid + 1)"
proof (cases pre)
  case Nil
  from assms(2) have pos: "0 < count_open lk" by (simp add: count_open_pos)
  have "close_loop (mid @ le # post) (length A + 1) (lk @ [nl]) (length A) (count_open lk) =
      ((lk @ [nl]) @ nlines (mid @ [le]), length A + 1 + length mid)"
    using pos assms(3,4) by (rule close_loop_closes)
  with Nil pos show ?thesis
    by (simp add: findFunctionBody_def nlines_Cons)
next
  case (Cons h pre')
  from assms(1) Cons have h0: "count_open h = 0" and pre': "\<forall>l \<in> set pre'. CHR ''{'' \<notin> set l"
    by (simp_all add: count_open_zero)
  from assms(2) have pos: "0 < count_open lk" by (simp add: count_open_pos)
  have op: "open_loop (pre' @ lk # mid @ le # post) (length A + 1) (h @ [nl]) (length A) =
      ((h @ [nl]) @ nlines (pre' @ [lk]), length A + 1 + length pre', count_open lk)"
    using pre' assms(2) by (rule open_loop_found)
  have cl: "close_loop (mid @ le # post) (length A + 1 + length pre' + 1)
      ((h @ [nl]) @ nlines (pre' @ [lk])) (length A + 1 + length pre') (count_open lk) =
      (((h @ [nl]) @ nlines (pre' @ [lk])) @ nlines (mid @ [le]),
       length A + 1 + length pre' + 1 + length mid)"
    using pos assms(3,4) by (rule close_loop_closes)
  have dr: "drop (length A + 1 + length pre' + 1) (A @ (h # pre') @ lk # mid @ le # post) =
      mid @ le # post"
    by simp
  show ?thesis
    using Cons h0 op cl dr
    by (simp add: findFunctionBody_def nlines_Cons nlines_append)
qed

lemma body_never_list:
  assumes "\<forall>l \<in> set pre. CHR ''{'' \<notin> set l" and "CHR ''{'' \<in> set lk"
    and "0 \<notin> set (depths (count_open lk) (concat rest))"
  shows "findFunctionBody (A @ pre @ lk # rest) (length A) =
    (nlines (pre @ lk # rest), length A, length A + length pre + length rest)"
proof (cases pre)
  case Nil
  from assms(2) have pos: "0 < count_open lk" by (simp add: count_open_pos)
  have "close_loop rest (length A + 1) (lk @ [nl]) (length A) (count_open lk) =
      ((lk @ [nl]) @ nlines rest, if rest = [] then length A else length A + 1 + length rest - 1)"
    using pos assms(3) by (rule close_loop_never)
  with Nil pos show ?thesis
    by (simp add: findFunctionBody_def nlines_Cons)
next
  case (Cons h pre')
  from assms(1) Cons have h0: "count_open h = 0" and pre': "\<forall>l \<in> set pre'. CHR ''{'' \<notin> set l"
    by (simp_all add: count_open_zero)
  from assms(2) have pos: "0 < count_open lk" by (simp add: count_open_pos)
  have op: "open_loop (pre' @ lk # rest) (length A + 1) (h @ [nl]) (length A) =
      ((h @ [nl]) @ nlines (pre' @ [lk]), length A + 1 + length pre', count_open lk)"
    using pre' assms(2) by (rule open_loop_found)
  have cl: "close_loop rest (length A + 1 + length pre' + 1)
      ((h @ [nl]) @ nlines (pre' @ [lk])) (length A + 1 + length pre') (count_open lk) =
      (((h @ [nl]) @ nlines (pre' @ [lk])) @ nlines rest,
       if rest = [] then length A + 1 + length pre'
       else length A + 1 + length pre' + 1 + length rest - 1)"
    using pos assms(3) by (rule close_loop_never)
  have dr: "drop (length A + 1 + length pre' + 1) (A @ (h # pre') @ lk # rest) = rest"
    by simp
  show ?thesis
    using Cons h0 op cl dr
    by (simp add: findFunctionBody_def nlines_Cons nlines_append)
qed

lemma body_no_open_list:
  assumes "\<forall>l \<in> set (h # rest). CHR ''{'' \<notin> set l"
  shows "findFunctionBody (A @ h # rest) (length A) =
    (nlines (h # rest), length A, length A + length rest)"
proof -
  from assms have h0: "count_open h = 0" and r: "\<forall>l \<in> set rest. CHR ''{'' \<notin> set l"
    by (simp_all add: count_open_zero)
  have op: "open_loop rest (length A + 1) (h @ [nl]) (length A) =
      ((h @ [nl]) @ nlines rest, if rest = [] then length A else length A + 1 + length rest - 1, 0)"
    using r by (rule open_loop_none)
  show ?thesis
    using h0 op by (simp add: findFunctionBody_def nlines_Cons close_loop_zero)
qed

lemma opening_line_SomeD:
  assumes "opening_line lines s = Some k"
  shows "s \<le> k" and "k < length lines" and "CHR ''{'' \<in> set (lines ! k)"
    and "\<forall>l \<in> set (take (k - s) (drop s lines)). CHR ''{'' \<notin> set l"
proof -
  let ?P = "\<lambda>l. CHR ''{'' \<notin> set l"
  let ?p = "length (takeWhile ?P (drop s lines))"
  from assms have k: "k = s + ?p" and lt: "s + ?p < length lines"
    by (auto simp: opening_line_def Let_def split: if_splits)
  show "s \<le> k" using k by simp
  show "k < length lines" using k lt by simp
  have "?p < length (drop s lines)" using lt by simp
  then have "\<not> ?P (drop s lines ! ?p)" by (rule nth_length_takeWhile)
  moreover have "drop s lines ! ?p = lines ! k" using k lt by simp
  ultimately show "CHR ''{'' \<in> set (lines ! k)" by simp
  have "take (k - s) (drop s lines) = takeWhile ?P (drop s lines)"
    using k takeWhile_eq_take [of ?P "drop s lines"] by simp
  then show "\<forall>l \<in> set (take (k - s) (drop s lines)). CHR ''{'' \<notin> set l"
    by (auto dest: set_takeWhileD)
qed

lemma opening_line_NoneD:
  assumes "opening_line lines s = None"
  shows "\<forall>l \<in> set (drop s lines). CHR ''{'' \<notin> set l"
proof -
  let ?P = "\<lambda>l. CHR ''{'' \<notin> set l"
  from assms have "length (drop s lines) \<le> length (takeWhile ?P (drop s lines))"
    by (auto simp: opening_line_def Let_def split: if_splits)
  then have "takeWhile ?P (drop s lines) = drop s lines"
    by (metis length_takeWhile_le le_antisym takeWhile_eq_take take_all)
  then show ?thesis by (metis set_takeWhileD)
qed

lemma split_three:
  assumes "s \<le> k" and "k < length lines"
  shows "lines = take s lines @ take (k - s) (drop s lines) @ lines ! k # drop (k + 1) lines"
proof -
  have "drop s lines = take (k - s) (drop s lines) @ drop (k - s) (drop s lines)"
    by (rule append_take_drop_id [symmetric])
  also have "drop (k - s) (drop s lines) = drop k lines" using assms by simp
  also have "drop k lines = lines ! k # drop (k + 1) lines"
    using assms by (simp add: Cons_nth_drop_Suc)
  finally have "drop s lines = take (k - s) (drop s lines) @ lines ! k # drop (k + 1) lines" .
  then have "take s lines @ drop s lines =
      take s lines @ take (k - s) (drop s lines) @ lines ! k # drop (k + 1) lines"
    by simp
  then show ?thesis by simp
qed

lemma split_two:
  assumes "k < e" and "e < length lines"
  shows "drop (k + 1) lines = take (e - k - 1) (drop (k + 1) lines) @ lines ! e # drop (e + 1) lines"
proof -
  have "drop (k + 1) lines = take (e - k - 1) (drop (k + 1) lines) @ drop (e - k - 1) (drop (k + 1) lines)"
    by (rule append_take_drop_id [symmetric])
  also have "drop (e - k - 1) (drop (k + 1) lines) = drop e lines" using assms by simp
  also have "drop e lines = lines ! e # drop (e + 1) lines"
    using assms by (simp add: Cons_nth_drop_Suc)
  finally show ?thesis .
qed

lemma take_Suc_length_append: "take (Suc (length xs)) (xs @ y # ys) = xs @ [y]"
  by simp

text \<open>When the counter first returns to zero on line \<open>e\<close>, the collector stops there and
  its body is the text of the lines from the header to \<open>e\<close>.\<close>

lemma body_closes:
  assumes "closes_on lines s e"
  shows "findFunctionBody lines s = (slice lines s e, s, e)"
proof -
  from assms obtain k where ol: "opening_line lines s = Some k"
    and ke: "k < e" and el: "e < length lines"
    and n0: "0 \<notin> set (depths (count_open (lines ! k)) (concat (take (e - k - 1) (drop (k + 1) lines))))"
    and y0: "0 \<in> set (depths (count_open (lines ! k)) (concat (take (e - k) (drop (k + 1) lines))))"
    by (auto simp: closes_on_def split: option.splits)
  note D = opening_line_SomeD [OF ol]
  define A where "A = take s lines"
  define pre where "pre = take (k - s) (drop s lines)"
  define mid where "mid = take (e - k - 1) (drop (k + 1) lines)"
  define post where "post = drop (e + 1) lines"
  have two: "drop (k + 1) lines = mid @ lines ! e # post"
    unfolding mid_def post_def using ke el by (rule split_two)
  have three: "lines = A @ pre @ lines ! k # drop (k + 1) lines"
    unfolding A_def pre_def using D(1,2) by (rule split_three)
  have eq: "lines = A @ pre @ lines ! k # mid @ lines ! e # post"
    using three two by simp
  have lenA: "length A = s" using D(1,2) by (simp add: A_def)
  have lenpre: "length pre = k - s" using D(1,2) by (simp add: pre_def)
  have lenmid: "length mid = e - k - 1" using ke el by (simp add: mid_def)
  have ek: "e - k = Suc (length mid)" using lenmid ke by simp
  have "take (e - k) (drop (k + 1) lines) = mid @ [lines ! e]"
    unfolding ek two by (rule take_Suc_length_append)
  with y0 have y0': "0 \<in> set (depths (count_open (lines ! k)) (concat (mid @ [lines ! e])))"
    by simp
  have n0': "0 \<notin> set (depths (count_open (lines ! k)) (concat mid))"
    using n0 by (simp add: mid_def)
  have pre0: "\<forall>l \<in> set pre. CHR ''{'' \<notin> set l"
    using D(4) by (simp add: pre_def)
  have "findFunctionBody (A @ pre @ lines ! k # mid @ lines ! e # post) (length A) =
      (nlines (pre @ lines ! k # mid @ [lines ! e]), length A,
       length A + length pre + length mid + 1)"
    using pre0 D(3) n0' y0' by (rule body_closes_list)
  moreover have "length A + length pre + length mid + 1 = e"
    using lenA lenpre lenmid D(1) ke by simp
  ultimately have r: "findFunctionBody lines s =
      (nlines (pre @ lines ! k # mid @ [lines ! e]), s, e)"
    using eq lenA by simp
  have len: "length (pre @ lines ! k # mid @ [lines ! e]) = e + 1 - s"
    using lenpre lenmid D(1) ke by simp
  have "drop s lines = (pre @ lines ! k # mid @ [lines ! e]) @ post"
    using eq lenA by (metis append.assoc append_Cons append_Nil append_eq_conv_conj)
  then have "take (e + 1 - s) (drop s lines) = pre @ lines ! k # mid @ [lines ! e]"
    using len by (metis append_eq_conv_conj)
  with r show ?thesis by (simp add: slice_def)
qed

text \<open>When the opening line has no closing brace after its first opening brace, the counter
  of the collector, which starts from the opening braces of that line, is the lexical depth:
  it returns to zero on the line of the matching brace.\<close>

lemma count_open_from_brace: "count_open (from_brace l) = count_open l"
  by (induction l) (auto simp: from_brace_def count_open_def)

lemma depth_after_no_close:
  "CHR ''}'' \<notin> set xs \<Longrightarrow> depth_after d xs = d + count_open xs"
  by (induction xs arbitrary: d) (auto simp: count_open_def)

lemma depths_no_close:
  "CHR ''}'' \<notin> set xs \<Longrightarrow> \<forall>x \<in> set (depths d xs). d \<le> x"
proof (induction xs arbitrary: d)
  case Nil
  then show ?case by simp
next
  case (Cons c cs)
  show ?case
  proof (cases "c = CHR ''{''")
    case True
    from Cons.prems have "CHR ''}'' \<notin> set cs" by simp
    from Cons.IH [OF this, of "d + 1"] True show ?thesis by (auto simp: Let_def)
  next
    case False
    from Cons.prems have "CHR ''}'' \<notin> set cs" and "c \<noteq> CHR ''}''" by auto
    with Cons.IH [of d] False show ?thesis by (auto simp: Let_def)
  qed
qed

lemma from_brace_Cons:
  assumes "CHR ''{'' \<in> set l"
  shows "\<exists>t. from_brace l = CHR ''{'' # t"
proof -
  from assms have ne: "from_brace l \<noteq> []"
    by (auto simp: from_brace_def dropWhile_eq_Nil_conv)
  then have "hd (from_brace l) = CHR ''{''"
    unfolding from_brace_def using hd_dropWhile [of "\<lambda>c. c \<noteq> CHR ''{''" l] by simp
  with ne show ?thesis by (cases "from_brace l") simp_all
qed

lemma depths_from_brace:
  assumes "CHR ''{'' \<in> set l" and "CHR ''}'' \<notin> set (from_brace l)"
  shows "0 \<in> set (depths 0 (from_brace l @ rest)) \<longleftrightarrow> 0 \<in> set (depths (count_open l) rest)"
proof -
  from from_brace_Cons [OF assms(1)] obtain t where t: "from_brace l = CHR ''{'' # t" by blast
  with assms(2) have nc: "CHR ''}'' \<notin> set t" by simp
  from depths_no_close [OF nc, of 1] have "0 \<notin> set (depths 1 t)" by fastforce
  then have a: "0 \<notin> set (depths 0 (from_brace l))" by (simp add: t Let_def)
  have "depth_after 0 (from_brace l) = count_open (from_brace l)"
    using assms(2) by (simp add: depth_after_no_close)
  then have b: "depth_after 0 (from_brace l) = count_open l"
    by (simp add: count_open_from_brace)
  show ?thesis using a b by (simp add: depths_append)
qed

lemma matching_brace_closes:
  assumes "opening_line lines s = Some k"
    and "CHR ''}'' \<notin> set (from_brace (lines ! k))"
    and "matching_brace_on lines k e"
  shows "closes_on lines s e"
proof -
  from opening_line_SomeD(3) [OF assms(1)] have ob: "CHR ''{'' \<in> set (lines ! k)" .
  note eq = depths_from_brace [OF ob assms(2)]
  from assms(3) show ?thesis
    by (simp add: closes_on_def assms(1) matching_brace_on_def eq)
qed

text \<open>\<^bold>\<open>C9\<close>. When the brace depth counter does not return to zero before the end of the
  buffer, the brace body collector returns a value, not a fault: the text of all lines
  from the header line to the end of the buffer, with the last line of the buffer as
  \<open>endLine\<close>.\<close>

theorem unclosed_body_runs_to_end:
  assumes "s < length lines" and "never_closes lines s"
  shows "findFunctionBody lines s = (slice lines s (length lines - 1), s, length lines - 1)"
proof (cases "opening_line lines s")
  case None
  define A where "A = take s lines"
  define rest where "rest = drop (s + 1) lines"
  have eq: "lines = A @ lines ! s # rest"
    unfolding A_def rest_def using assms(1) by (simp add: id_take_nth_drop)
  have lenA: "length A = s" using assms(1) by (simp add: A_def)
  have ds: "drop s lines = lines ! s # rest"
    using eq lenA by (metis append_eq_conv_conj)
  from opening_line_NoneD [OF None] ds
  have "\<forall>l \<in> set (lines ! s # rest). CHR ''{'' \<notin> set l" by simp
  then have "findFunctionBody (A @ lines ! s # rest) (length A) =
      (nlines (lines ! s # rest), length A, length A + length rest)"
    by (rule body_no_open_list)
  moreover have "length A + length rest = length lines - 1"
    using lenA assms(1) by (simp add: rest_def)
  ultimately have "findFunctionBody lines s = (nlines (drop s lines), s, length lines - 1)"
    using eq lenA ds by simp
  then show ?thesis using assms(1) by (simp add: slice_def)
next
  case (Some k)
  note D = opening_line_SomeD [OF Some]
  from assms(2) Some
  have n0: "0 \<notin> set (depths (count_open (lines ! k)) (concat (drop (k + 1) lines)))"
    by (simp add: never_closes_def)
  define A where "A = take s lines"
  define pre where "pre = take (k - s) (drop s lines)"
  define rest where "rest = drop (k + 1) lines"
  have eq: "lines = A @ pre @ lines ! k # rest"
    unfolding A_def pre_def rest_def using D(1,2) by (rule split_three)
  have lenA: "length A = s" using D(1,2) by (simp add: A_def)
  have lenpre: "length pre = k - s" using D(1,2) by (simp add: pre_def)
  have pre0: "\<forall>l \<in> set pre. CHR ''{'' \<notin> set l"
    using D(4) by (simp add: pre_def)
  have "findFunctionBody (A @ pre @ lines ! k # rest) (length A) =
      (nlines (pre @ lines ! k # rest), length A, length A + length pre + length rest)"
    using pre0 D(3) n0 [folded rest_def] by (rule body_never_list)
  moreover have "length A + length pre + length rest = length lines - 1"
    using lenA lenpre D(1,2) by (simp add: rest_def)
  moreover have "drop s lines = pre @ lines ! k # rest"
    using eq lenA by (metis append_eq_conv_conj)
  ultimately have "findFunctionBody lines s = (nlines (drop s lines), s, length lines - 1)"
    using eq lenA by simp
  then show ?thesis using assms(1) by (simp add: slice_def)
qed

theorem unclosed_body_runs_to_end_witness:
  "findFunctionBody [''function f() {'', ''  if (x) {'', ''  }''] 0 =
     (''function f() {\<newline>  if (x) {\<newline>  }\<newline>'', 0, 2)"
proof -
  let ?lines = "[''function f() {'', ''  if (x) {'', ''  }'']"
  have 1: "0 < length ?lines" by simp
  have 2: "never_closes ?lines 0"
    by (simp add: never_closes_def opening_line_def count_open_def)
  from unclosed_body_runs_to_end [OF 1 2] show ?thesis by (simp add: slice_def)
qed

section \<open>The lookback window\<close>

lemma scan_up_None_iff:
  "lo \<le> i \<Longrightarrow> scan_up m lines lo i = None \<longleftrightarrow> (\<forall>j. lo \<le> j \<and> j \<le> i \<longrightarrow> m (lines ! j) = None)"
proof (induction m lines lo i rule: scan_up.induct)
  case (1 m lines lo i)
  show ?case
  proof (cases "m (lines ! i)")
    case (Some nm)
    with "1.prems" show ?thesis by (subst scan_up.simps) auto
  next
    case None
    show ?thesis
    proof (cases "lo < i")
      case True
      then have "lo \<le> i - 1" by simp
      from "1.IH" [OF None True this]
      have IH: "scan_up m lines lo (i - 1) = None \<longleftrightarrow>
          (\<forall>j. lo \<le> j \<and> j \<le> i - 1 \<longrightarrow> m (lines ! j) = None)" .
      have "(\<forall>j. lo \<le> j \<and> j \<le> i \<longrightarrow> m (lines ! j) = None) \<longleftrightarrow>
          (\<forall>j. lo \<le> j \<and> j \<le> i - 1 \<longrightarrow> m (lines ! j) = None)"
      proof (intro iffI allI impI)
        fix j assume a: "\<forall>j. lo \<le> j \<and> j \<le> i - 1 \<longrightarrow> m (lines ! j) = None" and b: "lo \<le> j \<and> j \<le> i"
        show "m (lines ! j) = None"
        proof (cases "j = i")
          case True with None show ?thesis by simp
        next
          case False
          with b have "lo \<le> j \<and> j \<le> i - 1" by arith
          with a show ?thesis by blast
        qed
      qed auto
      with IH None True show ?thesis by (subst scan_up.simps) simp
    next
      case False
      with "1.prems" have "lo = i" by simp
      with None show ?thesis by (subst scan_up.simps) auto
    qed
  qed
qed

lemma scan_up_Some:
  "lo \<le> s \<Longrightarrow> s \<le> i \<Longrightarrow> m (lines ! s) = Some nm \<Longrightarrow>
   (\<forall>j. s < j \<and> j \<le> i \<longrightarrow> m (lines ! j) = None) \<Longrightarrow>
   scan_up m lines lo i = Some (s, nm)"
proof (induction m lines lo i rule: scan_up.induct)
  case (1 m lines lo i)
  show ?case
  proof (cases "s = i")
    case True
    with "1.prems" show ?thesis by (subst scan_up.simps) simp
  next
    case False
    with "1.prems" have lt: "s < i" by simp
    with "1.prems" have None: "m (lines ! i) = None" by simp
    from lt "1.prems" have lo: "lo < i" by simp
    from lt have s1: "s \<le> i - 1" by arith
    from "1.prems"(4) have q: "\<forall>j. s < j \<and> j \<le> i - 1 \<longrightarrow> m (lines ! j) = None"
      by auto
    have "scan_up m lines lo (i - 1) = Some (s, nm)"
      using "1.IH" [OF None lo "1.prems"(1) s1 "1.prems"(3) q] .
    with None lo show ?thesis by (subst scan_up.simps) simp
  qed
qed

lemma scan_up_SomeD:
  "scan_up m lines lo i = Some (s, nm) \<Longrightarrow> lo \<le> i \<Longrightarrow>
   lo \<le> s \<and> s \<le> i \<and> m (lines ! s) = Some nm \<and> (\<forall>j. s < j \<and> j \<le> i \<longrightarrow> m (lines ! j) = None)"
proof (induction m lines lo i rule: scan_up.induct)
  case (1 m lines lo i)
  show ?case
  proof (cases "m (lines ! i)")
    case (Some x)
    with "1.prems" show ?thesis by (subst (asm) scan_up.simps) auto
  next
    case None
    show ?thesis
    proof (cases "lo < i")
      case True
      with None "1.prems" have r: "scan_up m lines lo (i - 1) = Some (s, nm)"
        by (subst (asm) scan_up.simps) simp
      from True have "lo \<le> i - 1" by simp
      from "1.IH" [OF None True r this]
      have IH: "lo \<le> s \<and> s \<le> i - 1 \<and> m (lines ! s) = Some nm \<and>
          (\<forall>j. s < j \<and> j \<le> i - 1 \<longrightarrow> m (lines ! j) = None)" .
      have "\<forall>j. s < j \<and> j \<le> i \<longrightarrow> m (lines ! j) = None"
      proof (intro allI impI)
        fix j assume b: "s < j \<and> j \<le> i"
        show "m (lines ! j) = None"
        proof (cases "j = i")
          case True with None show ?thesis by simp
        next
          case False
          with b have "s < j \<and> j \<le> i - 1" by arith
          with IH show ?thesis by blast
        qed
      qed
      moreover from IH True have "lo \<le> s \<and> s \<le> i \<and> m (lines ! s) = Some nm" by auto
      ultimately show ?thesis by blast
    next
      case False
      with None "1.prems" show ?thesis by (subst (asm) scan_up.simps) simp
    qed
  qed
qed

lemma findJavaScriptFunction_None:
  "findJavaScriptFunction doc c = None \<longleftrightarrow>
     scan_up js_signature (split_nl (getText doc)) (c - 10) c = None"
  by (auto simp: findJavaScriptFunction_def Let_def split: option.splits prod.splits)

lemma findPythonFunction_None:
  "findPythonFunction doc c = None \<longleftrightarrow>
     scan_up py_signature (split_nl (getText doc)) (c - 10) c = None"
  by (auto simp: findPythonFunction_def Let_def split: option.splits prod.splits)

lemma findCStyleFunction_None:
  "findCStyleFunction doc c = None \<longleftrightarrow>
     scan_up c_signature (split_nl (getText doc)) (c - 10) c = None"
  by (auto simp: findCStyleFunction_def Let_def split: option.splits prod.splits)

lemma findGenericFunction_None:
  "findGenericFunction doc c = None \<longleftrightarrow>
     scan_up generic_signature (split_nl (getText doc)) (c - 5) c = None"
  by (auto simp: findGenericFunction_def Let_def split: option.splits prod.splits)

lemma locate_scan:
  assumes "c < length (split_nl (getText doc))"
  shows "findFunctionAtPosition doc c = Inr None \<longleftrightarrow>
    scan_up (matcher_for (languageId doc)) (split_nl (getText doc)) (c - lookback (languageId doc)) c = None"
    and "\<exists>r. findFunctionAtPosition doc c = Inr r"
  using assms
  by (auto simp: findFunctionAtPosition_def Let_def matcher_for_def lookback_def js_langs_def c_langs_def
      findJavaScriptFunction_None findPythonFunction_None findCStyleFunction_None
      findGenericFunction_None)

section \<open>Evaluation of the concrete scenarios\<close>

lemmas regex_eval = functionPatterns_def js_function_decl_def js_arrow_def js_method_def
  js_class_method_def py_pattern_def c_pattern_def generic_pattern_def
  js_signature_def py_signature_def c_signature_def generic_signature_def
  seq_def lit_def Plus_def match_here_def group_def
  is_space_def is_alnum_def ident_js_def ident_c_def type_c_def throws_c_def
  not_rparen_def not_lbrace_def any_char_def

lemmas text_eval = trim_def startsWith_def endsWith_def search_nonspace_def is_space_def
  triple_dq_def triple_sq_def count_open_def

lemma js_add_lines:
  "split_nl js_add_text = [''function add(a, b) {'', ''  return a + b;'', ''}'', '''']"
  by (simp add: js_add_text_def)

lemma py_add_lines:
  "split_nl py_add_text = [''def add(a, b):'', ''    return a + b'', '''']"
  by (simp add: py_add_text_def)

lemma js_sig_header: "js_signature ''function add(a, b) {'' = Some ''add''"
  by (simp add: regex_eval)

lemma js_sig_return: "js_signature ''  return a + b;'' = None"
  by (simp add: regex_eval)


lemma py_sig_header: "py_signature ''def add(a, b):'' = Some ''add''"
  by (simp add: regex_eval)

lemma py_sig_return: "py_signature ''    return a + b'' = None"
  by (simp add: regex_eval)

lemma js_add_scan:
  "scan_up js_signature [''function add(a, b) {'', ''  return a + b;'', ''}'', ''''] (1 - 10) 1 = Some (0, ''add'')"
  by (simp add: scan_up.simps js_sig_header js_sig_return)

lemma js_add_body:
  "findFunctionBody [''function add(a, b) {'', ''  return a + b;'', ''}'', ''''] 0 = (js_add_text, 0, 2)"
  by (simp add: findFunctionBody_def count_open_def js_add_text_def)

lemma js_add_doc:
  "findExistingDocumentation [''function add(a, b) {'', ''  return a + b;'', ''}'', ''''] 0 = None"
  by (simp add: findExistingDocumentation_def skip_blank_up.simps)

lemma py_add_scan:
  "scan_up py_signature [''def add(a, b):'', ''    return a + b'', ''''] (1 - 10) 1 = Some (0, ''add'')"
  by (simp add: scan_up.simps py_sig_header py_sig_return)

lemma py_add_eval:
  "findFunctionAtPosition \<lparr>getText = py_add_text, languageId = ''python''\<rparr> 1 =
     Inr (Some \<lparr>name = ''add'', signature = ''def add(a, b):'',
       body = ''    return a + b\<newline>\<newline>'',
       startLine = 0, endLine = 2, language = ''python'', existingDocumentation = None\<rparr>)"
  using py_add_lines py_add_scan
  by (simp add: findFunctionAtPosition_def findPythonFunction_def findPythonDocstring_def text_eval)

lemma long_js_lines:
  "split_nl long_js_text = [''function f() {'', ''a;'', ''a;'', ''a;'', ''a;'', ''a;'', ''a;'',
     ''a;'', ''a;'', ''a;'', ''a;'', ''a;'', ''}'']"
  by (simp add: long_js_text_def)

lemma js_sig_f: "js_signature ''function f() {'' = Some ''f''"
  by (simp add: regex_eval)

lemma js_sig_stmt: "js_signature ''a;'' = None"
  by (simp add: regex_eval)

lemma long_js_scan:
  "scan_up js_signature [''function f() {'', ''a;'', ''a;'', ''a;'', ''a;'', ''a;'', ''a;'',
     ''a;'', ''a;'', ''a;'', ''a;'', ''a;'', ''}''] (11 - 10) 11 = None"
  by (simp add: scan_up.simps js_sig_stmt)

lemma long_js_matching:
  "opening_line [''function f() {'', ''a;'', ''a;'', ''a;'', ''a;'', ''a;'', ''a;'',
     ''a;'', ''a;'', ''a;'', ''a;'', ''a;'', ''}''] 0 = Some 0 \<and>
   matching_brace_on [''function f() {'', ''a;'', ''a;'', ''a;'', ''a;'', ''a;'', ''a;'',
     ''a;'', ''a;'', ''a;'', ''a;'', ''a;'', ''}''] 0 12"
  by (simp add: matching_brace_on_def opening_line_def from_brace_def)

lemma default_param_lines:
  "split_nl default_param_text = [''function f(o = {}) {'', ''  return o;'', ''}'', ''const z = 1;'']"
  by (simp add: default_param_text_def)

lemma js_sig_default_param: "js_signature ''function f(o = {}) {'' = Some ''f''"
  by (simp add: regex_eval)

lemma js_sig_return_o: "js_signature ''  return o;'' = None"
  by (simp add: regex_eval)

lemma default_param_scan:
  "scan_up js_signature [''function f(o = {}) {'', ''  return o;'', ''}'', ''const z = 1;''] (1 - 10) 1 =
     Some (0, ''f'')"
  by (simp add: scan_up.simps js_sig_default_param js_sig_return_o)

lemma default_param_body:
  "findFunctionBody [''function f(o = {}) {'', ''  return o;'', ''}'', ''const z = 1;''] 0 =
     (''function f(o = {}) {\<newline>  return o;\<newline>}\<newline>const z = 1;\<newline>'', 0, 3)"
  by (simp add: findFunctionBody_def count_open_def)

text \<open>\<^bold>\<open>C8\<close>. For a cursor line of the buffer, whatever the language tag, the locator returns a
  value and never a fault, and it returns not-found exactly when no line of the window
  matches the signature matcher of the language: the window is the cursor line and the
  lines above it, down to line 0, 10 of them for the JS/TS, Python and C-family matchers
  and 5 for the generic fallback.\<close>

theorem window_not_found:
  assumes "c < length (split_nl (getText doc))"
  shows "(\<exists>r. findFunctionAtPosition doc c = Inr r) \<and>
    (findFunctionAtPosition doc c = Inr None \<longleftrightarrow>
      (\<forall>j. c - lookback (languageId doc) \<le> j \<and> j \<le> c \<longrightarrow>
        matcher_for (languageId doc) (split_nl (getText doc) ! j) = None))"
  using locate_scan [OF assms] scan_up_None_iff [of "c - lookback (languageId doc)" c]
  by simp

theorem window_not_found_witness:
  "findFunctionAtPosition \<lparr>getText = prose_text, languageId = ''javascript''\<rparr> 1 = Inr None"
proof -
  let ?doc = "\<lparr>getText = prose_text, languageId = ''javascript''\<rparr>"
  have l: "split_nl prose_text = [''plain text'', ''more prose'']"
    by (simp add: prose_text_def)
  have m: "matcher_for (languageId ?doc) = js_signature"
    by (simp add: matcher_for_def js_langs_def)
  have a: "js_signature ''plain text'' = None" by (simp add: regex_eval)
  have b: "js_signature ''more prose'' = None" by (simp add: regex_eval)
  have 1: "1 < length (split_nl (getText ?doc))" by (simp add: l)
  have 2: "\<forall>j. 1 - lookback (languageId ?doc) \<le> j \<and> j \<le> 1 \<longrightarrow>
      matcher_for (languageId ?doc) (split_nl (getText ?doc) ! j) = None"
  proof (intro allI impI)
    fix j :: nat assume "1 - lookback (languageId ?doc) \<le> j \<and> j \<le> 1"
    then have "j = 0 \<or> j = 1" by arith
    then show "matcher_for (languageId ?doc) (split_nl (getText ?doc) ! j) = None"
      unfolding m using a b by (auto simp: l)
  qed
  from window_not_found [OF 1] 2 show ?thesis by blast
qed

section \<open>Located spans\<close>

text \<open>\<^bold>\<open>C1\<close>, as amended. For a brace-family language: when the nearest line at or above the
  cursor that matches a signature pattern is the header line \<open>s\<close> of the function, at most
  10 lines above the cursor, the first line \<open>k\<close> at or after \<open>s\<close> with an opening brace
  has no closing brace after its first opening brace, and the closing brace that matches
  that opening brace lies on the later line \<open>e\<close>, the locator returns a record with
  \<open>startLine = s\<close> and \<open>endLine = e\<close>.\<close>

theorem brace_span:
  assumes "languageId doc \<in> set js_langs \<union> set c_langs"
    and "c < length (split_nl (getText doc))"
    and "s \<le> c" and "c - s \<le> 10"
    and "matcher_for (languageId doc) (split_nl (getText doc) ! s) = Some nm"
    and "\<forall>j. s < j \<and> j \<le> c \<longrightarrow> matcher_for (languageId doc) (split_nl (getText doc) ! j) = None"
    and "opening_line (split_nl (getText doc)) s = Some k"
    and "CHR ''}'' \<notin> set (from_brace (split_nl (getText doc) ! k))"
    and "matching_brace_on (split_nl (getText doc)) k e"
  shows "\<exists>r. findFunctionAtPosition doc c = Inr (Some r) \<and>
    name r = nm \<and> startLine r = s \<and> endLine r = e"
proof -
  let ?lines = "split_nl (getText doc)"
  let ?m = "matcher_for (languageId doc)"
  from assms(3,4) have lo: "c - 10 \<le> s" by arith
  have sc: "scan_up ?m ?lines (c - 10) c = Some (s, nm)"
    using lo assms(3,5,6) by (rule scan_up_Some)
  have "closes_on ?lines s e"
    using assms(7,8,9) by (rule matching_brace_closes)
  then have bd: "findFunctionBody ?lines s = (slice ?lines s e, s, e)"
    by (rule body_closes)
  from assms(1) consider (js) "languageId doc \<in> set js_langs"
    | (c) "languageId doc \<notin> set js_langs" "languageId doc \<in> set c_langs"
    by auto
  then show ?thesis
  proof cases
    case js
    then have "?m = js_signature" by (simp add: matcher_for_def)
    with sc bd js assms(2) show ?thesis
      by (simp add: findFunctionAtPosition_def findJavaScriptFunction_def js_langs_def Let_def)
  next
    case c
    then have "?m = c_signature" and "languageId doc \<noteq> ''python''"
      by (auto simp: matcher_for_def c_langs_def)
    with sc bd c assms(2) show ?thesis
      by (simp add: findFunctionAtPosition_def findCStyleFunction_def js_langs_def c_langs_def Let_def)
  qed
qed

theorem brace_span_witness:
  "\<exists>r. findFunctionAtPosition \<lparr>getText = js_add_text, languageId = ''javascript''\<rparr> 1 = Inr (Some r) \<and>
     name r = ''add'' \<and> startLine r = 0 \<and> endLine r = 2"
proof -
  let ?doc = "\<lparr>getText = js_add_text, languageId = ''javascript''\<rparr>"
  have m: "matcher_for (languageId ?doc) = js_signature"
    by (simp add: matcher_for_def js_langs_def)
  have 1: "languageId ?doc \<in> set js_langs \<union> set c_langs" by (simp add: js_langs_def)
  have 2: "1 < length (split_nl (getText ?doc))" by (simp add: js_add_lines)
  have 5: "matcher_for (languageId ?doc) (split_nl (getText ?doc) ! 0) = Some ''add''"
    unfolding m by (simp add: js_add_lines js_sig_header)
  have 6: "\<forall>j. 0 < j \<and> j \<le> (1::nat) \<longrightarrow>
      matcher_for (languageId ?doc) (split_nl (getText ?doc) ! j) = None"
  proof (intro allI impI)
    fix j :: nat assume "0 < j \<and> j \<le> 1"
    then have "j = 1" by arith
    then show "matcher_for (languageId ?doc) (split_nl (getText ?doc) ! j) = None"
      unfolding m by (simp add: js_add_lines js_sig_return)
  qed
  have 7: "opening_line (split_nl (getText ?doc)) 0 = Some 0"
    by (simp add: js_add_lines opening_line_def)
  have 8: "CHR ''}'' \<notin> set (from_brace (split_nl (getText ?doc) ! 0))"
    by (simp add: js_add_lines from_brace_def)
  have 9: "matching_brace_on (split_nl (getText ?doc)) 0 2"
    by (simp add: js_add_lines matching_brace_on_def from_brace_def)
  show ?thesis
    using brace_span [of ?doc 1 0 "''add''" 0 2, OF 1 2 _ _ 5 6 7 8 9] by simp
qed

text \<open>The claim as stated fails: a cursor strictly inside a well-formed function whose header
  lies more than 10 lines above it finds nothing.\<close>

theorem brace_span_counterexample:
  "languageId \<lparr>getText = long_js_text, languageId = ''javascript''\<rparr> \<in> set js_langs \<and>
   js_signature (split_nl long_js_text ! 0) = Some ''f'' \<and>
   opening_line (split_nl long_js_text) 0 = Some 0 \<and>
   matching_brace_on (split_nl long_js_text) 0 12 \<and> (0::nat) < 11 \<and> (11::nat) < 12 \<and>
   findFunctionAtPosition \<lparr>getText = long_js_text, languageId = ''javascript''\<rparr> 11 = Inr None"
  using long_js_lines long_js_scan long_js_matching js_sig_f
  by (simp add: findFunctionAtPosition_def findJavaScriptFunction_def js_langs_def)

text \<open>A header line with a closing brace of its own is outside the amended claim: the
  collector counts the opening braces of that line only, so the block of a default
  parameter leaves the counter one too high and the collector runs past the closing
  brace of the function, here to the last line of the buffer.\<close>

lemma closing_brace_on_header_not_counted:
  "\<exists>r. findFunctionAtPosition \<lparr>getText = default_param_text, languageId = ''javascript''\<rparr> 1 = Inr (Some r) \<and>
     name r = ''f'' \<and> startLine r = 0 \<and> endLine r = 3"
  using default_param_lines default_param_scan default_param_body
  by (simp add: findFunctionAtPosition_def findJavaScriptFunction_def)

text \<open>\<^bold>\<open>C4\<close>. The JavaScript scenario: name \<open>add\<close>, lines 0 to 2, the body is the three lines
  verbatim.\<close>

theorem js_add_example:
  "findFunctionAtPosition \<lparr>getText = ''function add(a, b) {\<newline>  return a + b;\<newline>}\<newline>'', languageId = ''javascript''\<rparr> 1 =
     Inr (Some \<lparr>name = ''add'', signature = ''function add(a, b) {'',
       body = ''function add(a, b) {\<newline>  return a + b;\<newline>}\<newline>'',
       startLine = 0, endLine = 2, language = ''javascript'', existingDocumentation = None\<rparr>)"
  using js_add_lines js_add_scan js_add_body js_add_doc
  by (simp add: findFunctionAtPosition_def findJavaScriptFunction_def js_add_text_def trim_def is_space_def)


text \<open>\<^bold>\<open>C3\<close>, as amended. The Python scenario: name \<open>add\<close>, \<open>startLine = 0\<close>, and
  \<open>endLine = 2\<close>: the text ends with LF, so the buffer has an empty third line, which is
  blank and belongs to the body.\<close>

theorem python_add_example:
  "\<exists>r. findFunctionAtPosition \<lparr>getText = py_add_text, languageId = ''python''\<rparr> 1 = Inr (Some r) \<and>
     name r = ''add'' \<and> startLine r = 0 \<and> endLine r = 2"
  using py_add_eval by simp

text \<open>The scenario as stated, with \<open>endLine = 1\<close>, does not hold.\<close>

theorem python_add_example_counterexample:
  "\<not> (\<exists>r. findFunctionAtPosition \<lparr>getText = py_add_text, languageId = ''python''\<rparr> 1 = Inr (Some r) \<and>
     name r = ''add'' \<and> startLine r = 0 \<and> endLine r = 1)"
  using py_add_eval by simp

text \<open>On the brace-family and fallback paths the collector always returns the text of a span
  of lines that starts with the header line, whatever the braces do.\<close>

lemma open_loop_span:
  "\<exists>m n. m \<le> length ls \<and>
     open_loop ls i b e = (b @ nlines (take m ls), (if m = 0 then e else i + m - 1), n)"
proof (induction ls arbitrary: i b e)
  case Nil
  show ?case by (rule exI [of _ 0]) simp
next
  case (Cons l ls)
  show ?case
  proof (cases "CHR ''{'' \<in> set l")
    case True
    show ?thesis by (rule exI [of _ 1]) (simp add: True)
  next
    case False
    from Cons.IH [of "i + 1" "b @ l @ [nl]" i] obtain m n where
      m: "m \<le> length ls" and
      r: "open_loop ls (i + 1) (b @ l @ [nl]) i =
        ((b @ l @ [nl]) @ nlines (take m ls), (if m = 0 then i else i + 1 + m - 1), n)"
      by blast
    show ?thesis
      by (rule exI [of _ "Suc m"], rule exI [of _ n]) (use m r False in auto)
  qed
qed

lemma close_loop_span:
  "\<exists>m. m \<le> length ls \<and>
     close_loop ls i b e n = (b @ nlines (take m ls), (if m = 0 then e else i + m - 1))"
proof (induction ls arbitrary: i b e n)
  case Nil
  show ?case by (rule exI [of _ 0]) simp
next
  case (Cons l ls)
  show ?case
  proof (cases "n > 0")
    case False
    show ?thesis by (rule exI [of _ 0]) (simp add: False)
  next
    case True
    from Cons.IH [of "i + 1" "b @ l @ [nl]" i "scan_chars l n"] obtain m where
      m: "m \<le> length ls" and
      r: "close_loop ls (i + 1) (b @ l @ [nl]) i (scan_chars l n) =
        ((b @ l @ [nl]) @ nlines (take m ls), (if m = 0 then i else i + 1 + m - 1))"
      by blast
    show ?thesis
      by (rule exI [of _ "Suc m"]) (use m r True in auto)
  qed
qed

lemma findFunctionBody_steps:
  assumes "(if count_open (lines ! s) = 0
            then open_loop (drop (s + 1) lines) (s + 1) (lines ! s @ [nl]) s
            else (lines ! s @ [nl], s, count_open (lines ! s))) = (b1, e1, n1)"
    and "close_loop (drop (e1 + 1) lines) (e1 + 1) b1 e1 n1 = (b2, e2)"
  shows "findFunctionBody lines s = (b2, s, e2)"
  using assms by (simp add: findFunctionBody_def Let_def)

lemma findFunctionBody_span:
  assumes "s < length lines"
  shows "\<exists>e. s \<le> e \<and> e < length lines \<and> findFunctionBody lines s = (slice lines s e, s, e)"
proof -
  define rest where "rest = drop (s + 1) lines"
  have ds: "drop s lines = lines ! s # rest"
    using assms by (simp add: rest_def Cons_nth_drop_Suc)
  have lrest: "length rest = length lines - (s + 1)" by (simp add: rest_def)
  obtain b1 e1 n1 m1 where
    st1: "(if count_open (lines ! s) = 0
           then open_loop rest (s + 1) (lines ! s @ [nl]) s
           else (lines ! s @ [nl], s, count_open (lines ! s))) = (b1, e1, n1)"
    and b1: "b1 = (lines ! s @ [nl]) @ nlines (take m1 rest)" and e1: "e1 = s + m1"
    and m1: "m1 \<le> length rest"
  proof (cases "count_open (lines ! s) = 0")
    case True
    from open_loop_span [of rest "s + 1" "lines ! s @ [nl]" s] obtain m n where
      "m \<le> length rest" and
      "open_loop rest (s + 1) (lines ! s @ [nl]) s =
        ((lines ! s @ [nl]) @ nlines (take m rest), (if m = 0 then s else s + 1 + m - 1), n)"
      by blast
    with True that [of "(lines ! s @ [nl]) @ nlines (take m rest)" "s + m" n m] show ?thesis
      by (cases "m = 0") simp_all
  next
    case False
    with that [of "lines ! s @ [nl]" s "count_open (lines ! s)" 0] show ?thesis by simp
  qed
  have dd: "drop (e1 + 1) lines = drop m1 rest"
    by (simp add: rest_def e1 add.commute add.left_commute)
  from close_loop_span [of "drop (e1 + 1) lines" "e1 + 1" b1 e1 n1] obtain m2 where
    m2: "m2 \<le> length (drop (e1 + 1) lines)" and
    st2: "close_loop (drop (e1 + 1) lines) (e1 + 1) b1 e1 n1 =
      (b1 @ nlines (take m2 (drop (e1 + 1) lines)), (if m2 = 0 then e1 else e1 + 1 + m2 - 1))"
    by blast
  have e2: "(if m2 = 0 then e1 else e1 + 1 + m2 - 1) = s + m1 + m2" using e1 by simp
  have "take (s + m1 + m2 + 1 - s) (drop s lines) = lines ! s # take (m1 + m2) rest"
    by (simp add: ds)
  also have "take (m1 + m2) rest = take m1 rest @ take m2 (drop m1 rest)"
    by (rule take_add)
  finally have sl: "slice lines s (s + m1 + m2) = b1 @ nlines (take m2 (drop (e1 + 1) lines))"
    using dd by (simp add: slice_def b1)
  have "findFunctionBody lines s =
      (b1 @ nlines (take m2 (drop (e1 + 1) lines)), s, (if m2 = 0 then e1 else e1 + 1 + m2 - 1))"
    using st1 [unfolded rest_def] st2 by (rule findFunctionBody_steps)
  then have r: "findFunctionBody lines s = (slice lines s (s + m1 + m2), s, s + m1 + m2)"
    unfolding e2 sl [symmetric] .
  have "s + m1 + m2 < length lines" using m1 m2 lrest e1 assms by simp
  with r show ?thesis by (intro exI [of _ "s + m1 + m2"]) simp
qed

lemma findFunctionBody_start: "findFunctionBody lines s = (b, s', e) \<Longrightarrow> s' = s"
  by (auto simp: findFunctionBody_def Let_def split: prod.splits)

lemma findJavaScriptFunction_SomeD:
  assumes "findJavaScriptFunction doc c = Some r"
  shows "\<exists>i nm. scan_up js_signature (split_nl (getText doc)) (c - 10) c = Some (i, nm) \<and>
    startLine r = i \<and> findFunctionBody (split_nl (getText doc)) i = (body r, i, endLine r)"
proof -
  from assms obtain i nm b s e where
    sc: "scan_up js_signature (split_nl (getText doc)) (c - 10) c = Some (i, nm)" and
    fb: "findFunctionBody (split_nl (getText doc)) i = (b, s, e)" and
    r: "body r = b" "startLine r = s" "endLine r = e"
    by (auto simp: findJavaScriptFunction_def Let_def split: option.splits prod.splits)
  from fb have "s = i" by (rule findFunctionBody_start)
  with sc fb r show ?thesis by simp
qed

lemma findCStyleFunction_SomeD:
  assumes "findCStyleFunction doc c = Some r"
  shows "\<exists>i nm. scan_up c_signature (split_nl (getText doc)) (c - 10) c = Some (i, nm) \<and>
    startLine r = i \<and> findFunctionBody (split_nl (getText doc)) i = (body r, i, endLine r)"
  using assms
  by (auto simp: findCStyleFunction_def Let_def split: option.splits prod.splits
      dest: findFunctionBody_start)

lemma findGenericFunction_SomeD:
  assumes "findGenericFunction doc c = Some r"
  shows "\<exists>i nm. scan_up generic_signature (split_nl (getText doc)) (c - 5) c = Some (i, nm) \<and>
    startLine r = i \<and> findFunctionBody (split_nl (getText doc)) i = (body r, i, endLine r)"
proof -
  from assms obtain i nm b s e where
    sc: "scan_up generic_signature (split_nl (getText doc)) (c - 5) c = Some (i, nm)" and
    fb: "findFunctionBody (split_nl (getText doc)) i = (b, s, e)" and
    r: "body r = b" "startLine r = s" "endLine r = e"
    by (auto simp: findGenericFunction_def Let_def split: option.splits prod.splits)
  from fb have "s = i" by (rule findFunctionBody_start)
  with sc fb r show ?thesis by simp
qed

lemma brace_body_is_span_text:
  assumes "languageId doc \<noteq> ''python''"
    and "findFunctionAtPosition doc c = Inr (Some r)"
    and "lines = split_nl (getText doc)"
  shows "startLine r \<le> endLine r \<and> endLine r < length lines \<and>
    body r = slice lines (startLine r) (endLine r)"
proof -
  from assms(2) have cl: "c < length lines"
    by (auto simp: findFunctionAtPosition_def Let_def assms(3) split: if_splits)
  from assms(1,2) have "findJavaScriptFunction doc c = Some r \<or>
      findCStyleFunction doc c = Some r \<or> findGenericFunction doc c = Some r"
    by (auto simp: findFunctionAtPosition_def Let_def split: if_splits)
  then obtain m k i nm where
    sc: "scan_up m lines (c - k) c = Some (i, nm)" and
    r: "startLine r = i" "findFunctionBody lines i = (body r, i, endLine r)"
    unfolding assms(3)
    using findJavaScriptFunction_SomeD [of doc c r] findCStyleFunction_SomeD [of doc c r]
      findGenericFunction_SomeD [of doc c r]
    by blast
  from scan_up_SomeD [OF sc] have "i \<le> c" by simp
  with cl have "i < length lines" by simp
  from findFunctionBody_span [OF this] r show ?thesis by auto
qed

text \<open>\<^bold>\<open>C2\<close>. The body of a located function is the text of the lines \<open>startLine\<close> to
  \<open>endLine\<close>, header line included. The Python matcher breaks this: on the Python scenario
  the body starts after the header line.\<close>

theorem python_body_omits_header:
  "\<exists>r. findFunctionAtPosition \<lparr>getText = py_add_text, languageId = ''python''\<rparr> 1 = Inr (Some r) \<and>
     body r = ''    return a + b\<newline>\<newline>'' \<and>
     slice (split_nl py_add_text) (startLine r) (endLine r) =
       ''def add(a, b):\<newline>    return a + b\<newline>\<newline>''"
  using py_add_eval by (simp add: py_add_lines slice_def)

section \<open>Documentation blocks\<close>

lemma dropWhile_all_iff:
  "(\<forall>c \<in> set (dropWhile P xs). P c) \<longleftrightarrow> (\<forall>c \<in> set xs. P c)"
proof
  assume a: "\<forall>c \<in> set (dropWhile P xs). P c"
  have "dropWhile P xs = []"
  proof (cases "dropWhile P xs")
    case (Cons x ys)
    then have "\<not> P x" by (metis hd_dropWhile list.sel(1) list.distinct(1))
    with a Cons show ?thesis by simp
  qed simp
  then show "\<forall>c \<in> set xs. P c" by (simp add: dropWhile_eq_Nil_conv)
next
  assume "\<forall>c \<in> set xs. P c"
  then show "\<forall>c \<in> set (dropWhile P xs). P c" by (blast dest: set_dropWhileD)
qed

lemma trim_Nil_iff: "trim l = [] \<longleftrightarrow> blank l"
proof -
  have "trim l = [] \<longleftrightarrow> dropWhile is_space (rev (dropWhile is_space l)) = []"
    by (simp add: trim_def)
  also have "\<dots> \<longleftrightarrow> (\<forall>c \<in> set (rev (dropWhile is_space l)). is_space c)"
    by (rule dropWhile_eq_Nil_conv)
  also have "\<dots> \<longleftrightarrow> (\<forall>c \<in> set (dropWhile is_space l). is_space c)"
    by simp
  also have "\<dots> \<longleftrightarrow> blank l"
    unfolding blank_def by (rule dropWhile_all_iff)
  finally show ?thesis .
qed

lemma search_from_eq:
  "search_from l i = (if blank l then - 1 else i + int (indent l))"
  by (induction l arbitrary: i) (auto simp: blank_def indent_def)

lemma search_nonspace_eq:
  "search_nonspace l = (if blank l then - 1 else int (indent l))"
  by (simp add: search_nonspace_def search_from_eq)

lemma py_body_loop_eq:
  "py_body_loop ls j d b e =
     (b @ nlines (takeWhile (\<lambda>l. \<not> terminator d l) ls),
      if takeWhile (\<lambda>l. \<not> terminator d l) ls = [] then e
      else j + length (takeWhile (\<lambda>l. \<not> terminator d l) ls) - 1)"
proof (induction ls arbitrary: j b e)
  case Nil
  then show ?case by simp
next
  case (Cons l ls)
  show ?case
  proof (cases "blank l")
    case True
    then show ?thesis
      by (simp add: Cons.IH trim_Nil_iff terminator_def)
  next
    case False
    then show ?thesis
      by (simp add: Cons.IH trim_Nil_iff terminator_def search_nonspace_eq Let_def)
  qed
qed

lemma nat_one_plus_int: "nat (1 + int n) = Suc n"
  by simp

lemma skip_blank_up_stop:
  "b \<le> n \<Longrightarrow> \<forall>j. b < j \<and> j \<le> n \<longrightarrow> blank (lines ! j) \<Longrightarrow> \<not> blank (lines ! b) \<Longrightarrow>
     skip_blank_up lines (int n) = int b"
proof (induction n)
  case 0
  then show ?case by (subst skip_blank_up.simps) (simp add: trim_Nil_iff nat_one_plus_int)
next
  case (Suc n)
  show ?case
  proof (cases "b = Suc n")
    case True
    with Suc.prems show ?thesis by (subst skip_blank_up.simps) (simp add: trim_Nil_iff nat_one_plus_int)
  next
    case False
    with Suc.prems have bn: "b \<le> n" by simp
    from Suc.prems have q: "\<forall>j. b < j \<and> j \<le> n \<longrightarrow> blank (lines ! j)" by auto
    from Suc.prems False have bl: "blank (lines ! Suc n)" by auto
    have "skip_blank_up lines (int (Suc n)) = skip_blank_up lines (int n)"
      using bl by (subst skip_blank_up.simps) (simp add: trim_Nil_iff nat_one_plus_int)
    with Suc.IH [OF bn q Suc.prems(3)] show ?thesis by simp
  qed
qed

lemma doc_up_block:
  "a \<le> b \<Longrightarrow> b < length lines \<Longrightarrow> startsWith (trim (lines ! a)) ''/**'' \<Longrightarrow>
   \<forall>j. a < j \<and> j \<le> b \<longrightarrow> \<not> startsWith (trim (lines ! j)) ''/**'' \<Longrightarrow>
     doc_up lines (int b) acc = Some (join_nl (take (b - a + 1) (drop a lines) @ acc))"
proof (induction b arbitrary: acc)
  case 0
  then have "take (Suc 0) lines = [lines ! 0]"
    by (cases lines) simp_all
  with 0 show ?case by (subst doc_up.simps) (simp add: Let_def nat_one_plus_int)
next
  case (Suc b)
  show ?case
  proof (cases "a = Suc b")
    case True
    with Suc.prems have "take (Suc 0) (drop a lines) = [lines ! a]"
      by (simp add: take_Suc_conv_app_nth)
    with True Suc.prems show ?thesis by (subst doc_up.simps) (simp add: Let_def nat_one_plus_int)
  next
    case False
    with Suc.prems have ab: "a \<le> b" by simp
    from Suc.prems have bl: "b < length lines" by simp
    from Suc.prems have q: "\<forall>j. a < j \<and> j \<le> b \<longrightarrow> \<not> startsWith (trim (lines ! j)) ''/**''"
      by auto
    from Suc.prems False have ns: "\<not> startsWith (trim (lines ! Suc b)) ''/**''" by auto
    have step: "doc_up lines (int (Suc b)) acc = doc_up lines (int b) (lines ! Suc b # acc)"
      using ns by (subst doc_up.simps) (simp add: Let_def nat_one_plus_int)
    have "take (Suc b - a + 1) (drop a lines) = take (b - a + 1) (drop a lines) @ [lines ! Suc b]"
    proof -
      have "Suc b - a + 1 = Suc (b - a + 1)" using ab by simp
      moreover have "b - a + 1 < length (drop a lines)" using Suc.prems ab by simp
      moreover have "drop a lines ! (b - a + 1) = lines ! Suc b" using Suc.prems ab by simp
      ultimately show ?thesis by (simp add: take_Suc_conv_app_nth)
    qed
    with step Suc.IH [OF ab bl Suc.prems(3) q, of "lines ! Suc b # acc"] show ?thesis by simp
  qed
qed

lemma endsWith_nonempty: "endsWith s ''*/'' \<Longrightarrow> s \<noteq> []"
  by (auto simp: endsWith_def)

text \<open>\<^bold>\<open>C7\<close>. A documentation block above the start line \<open>s\<close> of a function: the lines
  \<open>a\<close> to \<open>b\<close>, where only blank lines lie between \<open>b\<close> and \<open>s\<close>, the trimmed line
  \<open>b\<close> ends with the closer, the trimmed line \<open>a\<close> begins with the opener and no line
  of the block after \<open>a\<close> does. The finder returns exactly these lines, joined in their
  order.\<close>

theorem doc_block_found:
  assumes "a \<le> b" and "b < s" and "s \<le> length lines"
    and "\<forall>j. b < j \<and> j < s \<longrightarrow> blank (lines ! j)"
    and "endsWith (trim (lines ! b)) ''*/''"
    and "startsWith (trim (lines ! a)) ''/**''"
    and "\<forall>j. a < j \<and> j \<le> b \<longrightarrow> \<not> startsWith (trim (lines ! j)) ''/**''"
  shows "findExistingDocumentation lines s = Some (join_nl (take (b - a + 1) (drop a lines)))"
proof -
  from assms(5) have nb: "\<not> blank (lines ! b)"
    using endsWith_nonempty trim_Nil_iff by blast
  from assms(2) have bs: "b \<le> s - 1" by arith
  from assms(2,4) have q: "\<forall>j. b < j \<and> j \<le> s - 1 \<longrightarrow> blank (lines ! j)" by auto
  have "skip_blank_up lines (int (s - 1)) = int b"
    using bs q nb by (rule skip_blank_up_stop)
  moreover have "int (s - 1) = int s - 1" using assms(2) by simp
  ultimately have sk: "skip_blank_up lines (int s - 1) = int b" by simp
  from assms(2,3) have bl: "b < length lines" by simp
  have "doc_up lines (int b) [] = Some (join_nl (take (b - a + 1) (drop a lines) @ []))"
    using assms(1) bl assms(6,7) by (rule doc_up_block)
  with sk assms(5) show ?thesis
    by (simp add: findExistingDocumentation_def)
qed

theorem doc_block_found_witness:
  "findExistingDocumentation [''/**'', '' * Adds.'', '' */'', [], ''function add(a, b) {''] 4 =
     Some ''/**\<newline> * Adds.\<newline> */''"
proof -
  let ?lines = "[''/**'', '' * Adds.'', '' */'', [], ''function add(a, b) {'']"
  have 4: "\<forall>j. 2 < j \<and> j < (4::nat) \<longrightarrow> blank (?lines ! j)"
  proof (intro allI impI)
    fix j :: nat assume "2 < j \<and> j < 4"
    then have "j = 3" by arith
    then show "blank (?lines ! j)" by (simp add: blank_def)
  qed
  have 5: "endsWith (trim (?lines ! 2)) ''*/''" by (simp add: text_eval)
  have 6: "startsWith (trim (?lines ! 0)) ''/**''" by (simp add: text_eval)
  have 7: "\<forall>j. 0 < j \<and> j \<le> (2::nat) \<longrightarrow> \<not> startsWith (trim (?lines ! j)) ''/**''"
  proof (intro allI impI)
    fix j :: nat assume "0 < j \<and> j \<le> 2"
    then have "j = 1 \<or> j = 2" by arith
    then show "\<not> startsWith (trim (?lines ! j)) ''/**''" by (auto simp: text_eval)
  qed
  from doc_block_found [of 0 2 4 ?lines, OF _ _ _ 4 5 6 7] show ?thesis by simp
qed

section \<open>The Python body and docstring\<close>

text \<open>A line that the Python pattern matches is not blank: after leading whitespace it has
  the letters of \<open>def\<close>.\<close>

lemma star_loop_prefix:
  assumes f: "\<And>s c K r. f s c K = Some r \<Longrightarrow> \<exists>y ys. s = y # ys \<and> P y \<and> K ys c = Some r"
  shows "star_loop f fuel s c k = Some r \<Longrightarrow>
     \<exists>pre s'. s = pre @ s' \<and> (\<forall>x \<in> set pre. P x) \<and> k s' c = Some r"
proof (induction fuel arbitrary: s)
  case Nil
  then have "s = [] @ s \<and> (\<forall>x \<in> set []. P x) \<and> k s c = Some r" by simp
  then show ?case by blast
next
  case (Cons x fuel)
  let ?K = "\<lambda>s' c'. if length s' < length s then star_loop f fuel s' c' k else None"
  show ?case
  proof (cases "f s c ?K")
    case None
    with Cons.prems have "k s c = Some r" by simp
    then have "s = [] @ s \<and> (\<forall>x \<in> set []. P x) \<and> k s c = Some r" by simp
    then show ?thesis by blast
  next
    case (Some r')
    with Cons.prems have rr: "r' = r" by simp
    from f [OF Some] obtain y ys where s: "s = y # ys" and sp: "P y"
      and st: "?K ys c = Some r'" by blast
    from st s have "star_loop f fuel ys c k = Some r" by (simp add: rr split: if_splits)
    from Cons.IH [OF this] obtain pre s' where
      "ys = pre @ s'" "\<forall>x \<in> set pre. P x" "k s' c = Some r" by blast
    with s sp have "s = (y # pre) @ s' \<and> (\<forall>x \<in> set (y # pre). P x) \<and> k s' c = Some r"
      by simp
    then show ?thesis by blast
  qed
qed

lemma rmatch_Cls_step:
  "rmatch (Cls P) s c K = Some r \<Longrightarrow> \<exists>y ys. s = y # ys \<and> P y \<and> K ys c = Some r"
  by (auto split: list.splits if_splits)

lemma star_space_cont:
  "star_loop (rmatch (Cls is_space)) fuel s c k = Some r \<Longrightarrow>
     \<exists>pre s'. s = pre @ s' \<and> (\<forall>x \<in> set pre. is_space x) \<and> k s' c = Some r"
  by (rule star_loop_prefix [where f = "rmatch (Cls is_space)"]) (rule rmatch_Cls_step)

lemma lit_def_head:
  "rmatch (Seq (lit ''def'') R) s c k = Some r \<Longrightarrow> \<exists>t. s = CHR ''d'' # t"
  by (auto simp: lit_def seq_def split: list.splits if_splits)

lemma py_signature_not_blank:
  assumes "py_signature l = Some nm"
  shows "\<not> blank l"
proof -
  from assms obtain cs where "exec py_pattern l = Some cs"
    by (auto simp: py_signature_def)
  then obtain R k where
    "star_loop (rmatch (Cls is_space)) l l Map.empty (\<lambda>s' c'. rmatch (Seq (lit ''def'') R) s' c' k) = Some cs"
    by (auto simp: py_pattern_def match_here_def seq_def)
  from star_space_cont [OF this] obtain pre s' where
    l: "l = pre @ s'" and "rmatch (Seq (lit ''def'') R) s' Map.empty k = Some cs"
    by blast
  from lit_def_head [OF this(2)] obtain t where "s' = CHR ''d'' # t" by blast
  with l have "CHR ''d'' \<in> set l" by simp
  moreover have "\<not> is_space CHR ''d''" by (simp add: is_space_def)
  ultimately show ?thesis by (auto simp: blank_def)
qed

lemma findPythonFunction_SomeD:
  assumes "findPythonFunction doc c = Some r"
  shows "\<exists>i nm. scan_up py_signature (split_nl (getText doc)) (c - 10) c = Some (i, nm) \<and>
    startLine r = i \<and>
    (body r, endLine r) =
      py_body_loop (drop (i + 1) (split_nl (getText doc))) (i + 1)
        (search_nonspace (split_nl (getText doc) ! i)) [] i"
  using assms
  by (auto simp: findPythonFunction_def Let_def split: option.splits prod.splits)

lemma py_block_lines:
  "split_nl py_block_text = [''def f(x):'', ''    a = 1'', [], ''    return a'', ''print(1)'', []]"
  by (simp add: py_block_text_def)

lemma py_sig_f: "py_signature ''def f(x):'' = Some ''f''"
  by (simp add: regex_eval)

lemma py_sig_assign: "py_signature ''    a = 1'' = None"
  by (simp add: regex_eval)

lemma py_block_scan:
  "scan_up py_signature [''def f(x):'', ''    a = 1'', [], ''    return a'', ''print(1)'', []] (1 - 10) 1 =
     Some (0, ''f'')"
  by (simp add: scan_up.simps py_sig_f py_sig_assign)

lemma py_block_eval:
  "findFunctionAtPosition \<lparr>getText = py_block_text, languageId = ''python''\<rparr> 1 =
     Inr (Some \<lparr>name = ''f'', signature = ''def f(x):'',
       body = ''    a = 1\<newline>\<newline>    return a\<newline>'',
       startLine = 0, endLine = 3, language = ''python'', existingDocumentation = None\<rparr>)"
  using py_block_lines py_block_scan
  by (simp add: findFunctionAtPosition_def findPythonFunction_def findPythonDocstring_def text_eval)

text \<open>\<^bold>\<open>C5\<close>. The Python body collection, for a located function with header line
  \<open>startLine\<close>: the body is the text of the lines after the header up to \<open>endLine\<close>;
  each of these lines is blank or has its first character that is not whitespace in a
  column greater than the header's; and the line after \<open>endLine\<close>, when the buffer has
  one, is not blank and has that column less than or equal to the header's. So blank
  lines never end the scan, the first other line at or left of the header's column ends
  it and is excluded, and \<open>endLine\<close> is the last line included.\<close>

theorem python_body_span:
  assumes "languageId doc = ''python''"
    and "findFunctionAtPosition doc c = Inr (Some r)"
    and "lines = split_nl (getText doc)"
  shows "startLine r \<le> endLine r \<and> endLine r < length lines \<and>
    body r = slice lines (startLine r + 1) (endLine r) \<and>
    (\<forall>j. startLine r < j \<and> j \<le> endLine r \<longrightarrow>
       blank (lines ! j) \<or> indent (lines ! startLine r) < indent (lines ! j)) \<and>
    (endLine r + 1 < length lines \<longrightarrow>
       \<not> blank (lines ! (endLine r + 1)) \<and>
       indent (lines ! (endLine r + 1)) \<le> indent (lines ! startLine r))"
proof -
  from assms(1,2) have cl: "c < length lines" and fp: "findPythonFunction doc c = Some r"
    by (auto simp: findFunctionAtPosition_def Let_def assms(3) split: if_splits)
  from findPythonFunction_SomeD [OF fp] obtain i nm where
    sc: "scan_up py_signature lines (c - 10) c = Some (i, nm)" and si: "startLine r = i"
    and bl: "(body r, endLine r) =
      py_body_loop (drop (i + 1) lines) (i + 1) (search_nonspace (lines ! i)) [] i"
    unfolding assms(3) by blast
  from scan_up_SomeD [OF sc] have ic: "i \<le> c" and m: "py_signature (lines ! i) = Some nm"
    by simp_all
  from m have nb: "\<not> blank (lines ! i)" by (rule py_signature_not_blank)
  then have d: "search_nonspace (lines ! i) = int (indent (lines ! i))"
    by (simp add: search_nonspace_eq)
  define P where "P = (\<lambda>l. \<not> terminator (int (indent (lines ! i))) l)"
  define rest where "rest = drop (i + 1) lines"
  define tw where "tw = takeWhile P rest"
  from bl have b: "body r = nlines tw" and e: "endLine r = i + length tw"
    unfolding d py_body_loop_eq by (auto simp: tw_def P_def rest_def)
  have len: "length tw \<le> length rest" unfolding tw_def by (rule length_takeWhile_le)
  have lrest: "length rest = length lines - (i + 1)" by (simp add: rest_def)
  have il: "i < length lines" using ic cl by simp
  have 1: "startLine r \<le> endLine r" using si e by simp
  have 2: "endLine r < length lines" using e len lrest il by simp
  have "take (length tw) rest = tw" unfolding tw_def by (rule takeWhile_eq_take [symmetric])
  then have 3: "body r = slice lines (startLine r + 1) (endLine r)"
    using b si e by (simp add: slice_def rest_def)
  have 4: "\<forall>j. startLine r < j \<and> j \<le> endLine r \<longrightarrow>
      blank (lines ! j) \<or> indent (lines ! startLine r) < indent (lines ! j)"
  proof (intro allI impI)
    fix j assume j: "startLine r < j \<and> j \<le> endLine r"
    then have jj: "j - (i + 1) < length tw" using si e by arith
    then have "tw ! (j - (i + 1)) \<in> set tw" by (rule nth_mem)
    then have "P (tw ! (j - (i + 1)))" unfolding tw_def by (rule set_takeWhileD [THEN conjunct2])
    moreover have "tw ! (j - (i + 1)) = rest ! (j - (i + 1))"
      using jj unfolding tw_def by (rule takeWhile_nth)
    moreover have "rest ! (j - (i + 1)) = lines ! j"
      using j si jj len lrest by (simp add: rest_def)
    ultimately have "P (lines ! j)" by simp
    then show "blank (lines ! j) \<or> indent (lines ! startLine r) < indent (lines ! j)"
      by (auto simp: P_def terminator_def si)
  qed
  have 5: "endLine r + 1 < length lines \<longrightarrow>
      \<not> blank (lines ! (endLine r + 1)) \<and>
      indent (lines ! (endLine r + 1)) \<le> indent (lines ! startLine r)"
  proof
    assume "endLine r + 1 < length lines"
    then have lt: "length tw < length rest" using e lrest by simp
    then have "\<not> P (rest ! length tw)" unfolding tw_def by (rule nth_length_takeWhile)
    moreover have "rest ! length tw = lines ! (endLine r + 1)"
      using lt lrest e by (simp add: rest_def add.commute add.left_commute)
    ultimately show "\<not> blank (lines ! (endLine r + 1)) \<and>
        indent (lines ! (endLine r + 1)) \<le> indent (lines ! startLine r)"
      by (simp add: P_def terminator_def si)
  qed
  from 1 2 3 4 5 show ?thesis by blast
qed

theorem python_body_span_witness:
  "\<exists>r. findFunctionAtPosition \<lparr>getText = py_block_text, languageId = ''python''\<rparr> 1 = Inr (Some r) \<and>
     startLine r = 0 \<and> endLine r = 3 \<and>
     body r = slice (split_nl py_block_text) 1 3 \<and>
     \<not> blank (split_nl py_block_text ! 4) \<and>
     indent (split_nl py_block_text ! 4) \<le> indent (split_nl py_block_text ! 0)"
proof -
  let ?doc = "\<lparr>getText = py_block_text, languageId = ''python''\<rparr>"
  let ?r = "\<lparr>name = ''f'', signature = ''def f(x):'',
       body = ''    a = 1\<newline>\<newline>    return a\<newline>'',
       startLine = 0, endLine = 3, language = ''python'', existingDocumentation = None\<rparr>"
  have 1: "languageId ?doc = ''python''" by simp
  have 2: "findFunctionAtPosition ?doc 1 = Inr (Some ?r)" by (rule py_block_eval)
  have 3: "split_nl py_block_text = split_nl (getText ?doc)" by simp
  have "length (split_nl py_block_text) = 6" by (simp add: py_block_lines)
  with python_body_span [OF 1 2 3] 2 show ?thesis by simp
qed

text \<open>The loop of the docstring finder collects the lines up to the first closing line, and
  the finder agrees with the rule of the specification on every line that does not mix
  the two delimiters.\<close>

lemma docstring_loop_eq: "docstring_loop ls q acc = acc @ until_closing q ls"
  by (induction ls arbitrary: acc) (simp_all add: until_closing_def)

lemma starts_not_both: "startsWith t triple_dq \<Longrightarrow> \<not> startsWith t triple_sq"
  by (cases t) (auto simp: startsWith_def triple_dq_def triple_sq_def)

lemma ends_not_both: "endsWith t triple_dq \<Longrightarrow> \<not> endsWith t triple_sq"
  by (auto simp: endsWith_def triple_dq_def triple_sq_def)

lemma docstring_agrees:
  assumes "h + 1 < length lines \<Longrightarrow> \<not> mixed_delimiters (trim (lines ! (h + 1)))"
  shows "findPythonDocstring lines h = docstring_spec lines h"
proof (cases "h + 1 < length lines")
  case False
  then show ?thesis by (simp add: findPythonDocstring_def docstring_spec_def)
next
  case True
  let ?t = "trim (lines ! (h + 1))"
  from assms True have nm: "\<not> mixed_delimiters ?t" by simp
  show ?thesis
  proof (cases "startsWith ?t triple_dq \<or> startsWith ?t triple_sq")
    case False
    with True show ?thesis by (simp add: findPythonDocstring_def docstring_spec_def)
  next
    case st: True
    have single: "single_line_docstring ?t \<longleftrightarrow>
        (endsWith ?t triple_dq \<and> length ?t > 3) \<or> (endsWith ?t triple_sq \<and> length ?t > 3)"
      using st nm starts_not_both [of ?t]
      by (auto simp: single_line_docstring_def mixed_delimiters_def)
    show ?thesis
      using True st single
      by (auto simp: findPythonDocstring_def docstring_spec_def Let_def docstring_loop_eq)
  qed
qed

text \<open>\<^bold>\<open>C6\<close>. A line that starts with a triple-quote delimiter opens a docstring of several
  lines exactly when it does not start and end with the same delimiter. The finder breaks
  this on a line that opens with one delimiter and ends with the other: it returns that
  line alone, where the rule collects up to the line that closes the opening delimiter.\<close>

theorem mixed_delimiters_taken_for_one_line:
  "findPythonDocstring bad_docstring_lines 0 = Some (''    '' @ triple_dq @ ''a'' @ triple_sq) \<and>
   docstring_spec bad_docstring_lines 0 =
     Some (join_nl [''    '' @ triple_dq @ ''a'' @ triple_sq, ''    b'', ''    '' @ triple_dq])"
  by (simp add: findPythonDocstring_def docstring_spec_def bad_docstring_lines_def
      single_line_docstring_def until_closing_def text_eval)

end
